theory Spec2Isabelle
  imports Complex_Main "HOL-Library.Multiset" "HOL-Library.Sublist"
begin

section \<open>JavaScript numbers\<close>

text \<open>
  The program computes with JavaScript \<open>number\<close>s, which are IEEE 754 binary64 values.
  A \<open>number\<close> of the model is \<open>NaN\<close>, an infinity or a finite real, and every
  arithmetic operation rounds its exact result to the nearest binary64 value, ties to
  even, with gradual underflow, and with overflow to an infinity. The sign of zero is not
  modelled: a zero divisor is read as \<open>+0\<close>, which is the only zero the program ever
  divides by (the square root of a sum of squares).
\<close>

datatype number = NaN | NegInf | Fin real | PosInf

text \<open>\<open>ilog2 a\<close> is the binary exponent of \<open>a > 0\<close>: \<open>2 ^ ilog2 a \<le> a < 2 ^ (ilog2 a + 1)\<close>.\<close>

function ilog2_up :: "real \<Rightarrow> int" where
  "ilog2_up a = (if 2 \<le> a then 1 + ilog2_up (a / 2) else 0)"
  by pat_completeness auto
termination
proof (relation "measure (\<lambda>a. nat \<lceil>a\<rceil>)")
  show "wf (measure (\<lambda>a::real. nat \<lceil>a\<rceil>))" by simp
next
  fix a :: real
  assume a: "2 \<le> a"
  have "a / 2 \<le> of_int (\<lceil>a\<rceil> - 1)"
    using a le_of_int_ceiling [of a] by (simp only: of_int_diff of_int_1)
  then have "\<lceil>a / 2\<rceil> \<le> \<lceil>a\<rceil> - 1"
    by (rule ceiling_le)
  moreover have "0 < \<lceil>a\<rceil>" using a by (simp add: ceiling_less_iff less_ceiling_iff)
  ultimately show "(a / 2, a) \<in> measure (\<lambda>a. nat \<lceil>a\<rceil>)"
    by simp
qed

function ilog2_down :: "real \<Rightarrow> int" where
  "ilog2_down a = (if 0 < a \<and> a < 1 then ilog2_down (2 * a) - 1 else 0)"
  by pat_completeness auto
termination
proof (relation "measure (\<lambda>a. nat \<lceil>1 / a\<rceil>)")
  show "wf (measure (\<lambda>a::real. nat \<lceil>1 / a\<rceil>))" by simp
next
  fix a :: real
  assume a: "0 < a \<and> a < 1"
  define b where "b = 1 / a"
  have b: "1 < b" using a by (simp add: b_def)
  then have c2: "2 \<le> \<lceil>b\<rceil>" by (simp add: le_ceiling_iff)
  have "b / 2 \<le> of_int (\<lceil>b\<rceil> - 1)"
  proof (cases "b \<le> 2")
    case True
    then have "b / 2 \<le> 1" by simp
    also have "1 \<le> (of_int (\<lceil>b\<rceil> - 1) :: real)" using c2 by simp
    finally show ?thesis .
  next
    case False
    then show ?thesis
      using le_of_int_ceiling [of b] by (simp only: of_int_diff of_int_1)
  qed
  then have le: "\<lceil>b / 2\<rceil> \<le> \<lceil>b\<rceil> - 1" by (rule ceiling_le)
  have eq: "1 / (2 * a) = b / 2" by (simp add: b_def)
  have "\<lceil>1 / (2 * a)\<rceil> < \<lceil>b\<rceil>" "0 < \<lceil>b\<rceil>"
    unfolding eq using le c2 by linarith+
  then have "\<lceil>1 / (2 * a)\<rceil> < \<lceil>1 / a\<rceil>" "0 < \<lceil>1 / a\<rceil>"
    unfolding b_def .
  then show "(2 * a, a) \<in> measure (\<lambda>a. nat \<lceil>1 / a\<rceil>)"
    unfolding in_measure by linarith
qed

declare ilog2_up.simps [simp del] ilog2_down.simps [simp del]

definition ilog2 :: "real \<Rightarrow> int" where
  "ilog2 a = (if 1 \<le> a then ilog2_up a else ilog2_down a)"

definition roundHalfEven :: "real \<Rightarrow> int" where
  "roundHalfEven y =
     (let f = \<lfloor>y\<rfloor>
      in if y - of_int f < 1 / 2 then f
         else if 1 / 2 < y - of_int f then f + 1
         else if even f then f else f + 1)"

text \<open>The binary64 value nearest to \<open>a > 0\<close>, before the overflow test: 53 bits of
  significand, and no exponent below \<open>- 1022\<close>.\<close>

definition roundMagnitude :: "real \<Rightarrow> real" where
  "roundMagnitude a =
     (let e = max (ilog2 a) (- 1022) - 52
      in if 0 \<le> e then of_int (roundHalfEven (a / 2 ^ nat e)) * 2 ^ nat e
         else of_int (roundHalfEven (a * 2 ^ nat (- e))) / 2 ^ nat (- e))"

definition rnd :: "real \<Rightarrow> number" where
  "rnd r =
     (if r = 0 then Fin 0
      else let m = roundMagnitude \<bar>r\<bar>
           in if 2 ^ 1024 \<le> m then (if 0 < r then PosInf else NegInf)
              else Fin (if 0 < r then m else - m))"

fun number_plus :: "number \<Rightarrow> number \<Rightarrow> number" where
  "number_plus (Fin a) (Fin b) = rnd (a + b)"
| "number_plus NaN _ = NaN"
| "number_plus _ NaN = NaN"
| "number_plus PosInf NegInf = NaN"
| "number_plus NegInf PosInf = NaN"
| "number_plus PosInf _ = PosInf"
| "number_plus _ PosInf = PosInf"
| "number_plus NegInf _ = NegInf"
| "number_plus _ NegInf = NegInf"

fun number_uminus :: "number \<Rightarrow> number" where
  "number_uminus (Fin a) = Fin (- a)"
| "number_uminus NaN = NaN"
| "number_uminus PosInf = NegInf"
| "number_uminus NegInf = PosInf"

fun number_times :: "number \<Rightarrow> number \<Rightarrow> number" where
  "number_times (Fin a) (Fin b) = rnd (a * b)"
| "number_times NaN _ = NaN"
| "number_times _ NaN = NaN"
| "number_times (Fin a) v =
     (if a = 0 then NaN else if (0 < a) = (v = PosInf) then PosInf else NegInf)"
| "number_times u (Fin b) =
     (if b = 0 then NaN else if (0 < b) = (u = PosInf) then PosInf else NegInf)"
| "number_times u v = (if u = v then PosInf else NegInf)"

fun number_divide :: "number \<Rightarrow> number \<Rightarrow> number" where
  "number_divide (Fin a) (Fin b) =
     (if b = 0 then (if a = 0 then NaN else if 0 < a then PosInf else NegInf)
      else rnd (a / b))"
| "number_divide NaN _ = NaN"
| "number_divide _ NaN = NaN"
| "number_divide (Fin a) _ = Fin 0"
| "number_divide u (Fin b) = (if (0 \<le> b) = (u = PosInf) then PosInf else NegInf)"
| "number_divide _ _ = NaN"

fun number_less :: "number \<Rightarrow> number \<Rightarrow> bool" where
  "number_less (Fin a) (Fin b) = (a < b)"
| "number_less NaN _ = False"
| "number_less _ NaN = False"
| "number_less _ NegInf = False"
| "number_less PosInf _ = False"
| "number_less NegInf _ = True"
| "number_less _ PosInf = True"

text \<open>\<open>Math.sqrt\<close>, correctly rounded.\<close>

fun Math_sqrt :: "number \<Rightarrow> number" where
  "Math_sqrt (Fin a) = (if a < 0 then NaN else rnd (sqrt a))"
| "Math_sqrt PosInf = PosInf"
| "Math_sqrt _ = NaN"

instantiation number :: "{plus, minus, uminus, times, inverse, ord}"
begin

definition plus_number :: "number \<Rightarrow> number \<Rightarrow> number" where
  "plus_number u v = number_plus u v"

definition uminus_number :: "number \<Rightarrow> number" where
  "uminus_number u = number_uminus u"

definition minus_number :: "number \<Rightarrow> number \<Rightarrow> number" where
  "minus_number u v = number_plus u (number_uminus v)"

definition times_number :: "number \<Rightarrow> number \<Rightarrow> number" where
  "times_number u v = number_times u v"

definition divide_number :: "number \<Rightarrow> number \<Rightarrow> number" where
  "divide_number u v = number_divide u v"

definition inverse_number :: "number \<Rightarrow> number" where
  "inverse_number u = number_divide (Fin 1) u"

definition less_number :: "number \<Rightarrow> number \<Rightarrow> bool" where
  "less_number u v = number_less u v"

definition less_eq_number :: "number \<Rightarrow> number \<Rightarrow> bool" where
  "less_eq_number u v = (number_less u v \<or> (u = v \<and> u \<noteq> NaN))"

instance ..

end

section \<open>Data model\<close>

text \<open>
  The interfaces and classes of the program. Names that Isabelle already uses, or cannot
  read, are changed: the coordinates \<open>x\<close>, \<open>y\<close> are \<open>pt_x\<close>, \<open>pt_y\<close>; \<open>id\<close> is \<open>ident\<close>; the
  fields of a node are \<open>partition_of\<close>, \<open>front_of\<close>, \<open>back_of\<close>, \<open>polygons_of\<close>; \<open>root\<close> is
  \<open>root_node\<close>; \<open>insert\<close> is \<open>insert_poly\<close>; \<open>_insertHelper\<close> and \<open>_traverseHelper\<close> lose
  their underscore; a variable \<open>partition\<close> is \<open>plane\<close>.
\<close>

record Point =
  pt_x :: number
  pt_y :: number

record Polygon =
  ident :: nat
  points :: "Point list"
  color :: string

record Partition =
  point :: Point
  normal :: Point

datatype BSPNode =
  BSPNode (partition_of: Partition) (front_of: "BSPNode option") (back_of: "BSPNode option")
    (polygons_of: "Polygon list")

record BSPTree =
  root_node :: "BSPNode option"

datatype Classification = FRONT | BACK | COPLANAR | SPANNING

text \<open>
  The exception that the tree code raises by what it computes: reading \<open>.x\<close> of
  \<open>undefined\<close> when \<open>createPartition\<close> indexes a vertex the polygon does not have. (A
  recursion that does not end is not an exception of the model, but a call that does not
  return.)
\<close>

datatype error = TypeError

section \<open>Geometry, classification and clipping\<close>

definition pointToPlaneDistance :: "Point \<Rightarrow> Partition \<Rightarrow> number" where
  "pointToPlaneDistance pt plane =
     (let dx = pt_x pt - pt_x (point plane);
          dy = pt_y pt - pt_y (point plane)
      in dx * pt_x (normal plane) + dy * pt_y (normal plane))"

definition createPartition :: "Polygon \<Rightarrow> error + Partition" where
  "createPartition polygon =
     (case points polygon of
        p1 # p2 # _ \<Rightarrow>
          (let dx = pt_x p2 - pt_x p1;
               dy = pt_y p2 - pt_y p1;
               nrm = \<lparr>pt_x = - dy, pt_y = dx\<rparr>;
               len = Math_sqrt (pt_x nrm * pt_x nrm + pt_y nrm * pt_y nrm)
           in Inr \<lparr>point = p1, normal = \<lparr>pt_x = pt_x nrm / len, pt_y = pt_y nrm / len\<rparr>\<rparr>)
      | _ \<Rightarrow> Inl TypeError)"

text \<open>The literal \<open>0.1\<close> is the binary64 value nearest to one tenth.\<close>

definition EPSILON :: number where
  "EPSILON = rnd (1 / 10)"

text \<open>One round of the counting loop of \<open>classifyPolygon\<close>: the pair is
  \<open>(frontCount, backCount)\<close>.\<close>

definition classifyStep :: "Partition \<Rightarrow> Point \<Rightarrow> nat \<times> nat \<Rightarrow> nat \<times> nat" where
  "classifyStep plane pt counts =
     (let dist = pointToPlaneDistance pt plane
      in if dist > EPSILON then (fst counts + 1, snd counts)
         else if dist < - EPSILON then (fst counts, snd counts + 1)
         else counts)"

definition classifyCounts :: "Polygon \<Rightarrow> Partition \<Rightarrow> nat \<times> nat" where
  "classifyCounts polygon plane = fold (classifyStep plane) (points polygon) (0, 0)"

definition classifyPolygon :: "Polygon \<Rightarrow> Partition \<Rightarrow> Classification" where
  "classifyPolygon polygon plane =
     (let (frontCount, backCount) = classifyCounts polygon plane
      in if frontCount > 0 \<and> backCount = 0 then FRONT
         else if backCount > 0 \<and> frontCount = 0 then BACK
         else if frontCount = 0 \<and> backCount = 0 then COPLANAR
         else SPANNING)"

text \<open>The edge test of \<open>splitPolygon\<close> for the edge that starts at vertex \<open>i\<close>.\<close>

definition edgeCrosses :: "Polygon \<Rightarrow> Partition \<Rightarrow> nat \<Rightarrow> bool" where
  "edgeCrosses polygon plane i =
     (let curr = points polygon ! i;
          next = points polygon ! ((i + 1) mod length (points polygon));
          currDist = pointToPlaneDistance curr plane;
          nextDist = pointToPlaneDistance next plane
      in (currDist > Fin 0 \<and> nextDist < Fin 0) \<or> (currDist < Fin 0 \<and> nextDist > Fin 0))"

text \<open>One round of the loop of \<open>splitPolygon\<close>: the pair is \<open>(frontPoints, backPoints)\<close>.
  The loop runs over \<open>i < length\<close>, so both reads are in range.\<close>

definition splitStep ::
  "Polygon \<Rightarrow> Partition \<Rightarrow> nat \<Rightarrow> Point list \<times> Point list \<Rightarrow> Point list \<times> Point list" where
  "splitStep polygon plane i acc =
     (let curr = points polygon ! i;
          next = points polygon ! ((i + 1) mod length (points polygon));
          currDist = pointToPlaneDistance curr plane;
          nextDist = pointToPlaneDistance next plane;
          frontPoints = (if currDist \<ge> Fin 0 then fst acc @ [curr] else fst acc);
          backPoints = (if currDist \<le> Fin 0 then snd acc @ [curr] else snd acc)
      in if edgeCrosses polygon plane i then
           (let t = currDist / (currDist - nextDist);
                intersection =
                  \<lparr>pt_x = pt_x curr + t * (pt_x next - pt_x curr),
                   pt_y = pt_y curr + t * (pt_y next - pt_y curr)\<rparr>
            in (frontPoints @ [intersection], backPoints @ [intersection]))
         else (frontPoints, backPoints))"

definition splitLists :: "Polygon \<Rightarrow> Partition \<Rightarrow> Point list \<times> Point list" where
  "splitLists polygon plane =
     fold (splitStep polygon plane) [0..<length (points polygon)] ([], [])"

definition splitPolygon :: "Polygon \<Rightarrow> Partition \<Rightarrow> Polygon option \<times> Polygon option" where
  "splitPolygon polygon plane =
     (let (frontPoints, backPoints) = splitLists polygon plane
      in (if length frontPoints \<ge> 3 then Some (polygon\<lparr>points := frontPoints\<rparr>) else None,
          if length backPoints \<ge> 3 then Some (polygon\<lparr>points := backPoints\<rparr>) else None))"

section \<open>Insertion\<close>

text \<open>
  \<open>_insertHelper\<close> mutates the node it is given and may not return. The model returns
  the node after the call together with the exception that ended the call, if one did;
  \<open>None\<close> is the call whose recursion never ends (in JavaScript it goes on until the
  call stack is exhausted).
\<close>

definition newLeaf :: "Polygon \<Rightarrow> error + BSPNode" where
  "newLeaf polygon =
     (case createPartition polygon of
        Inl e \<Rightarrow> Inl e
      | Inr plane \<Rightarrow> Inr (BSPNode plane None None [polygon]))"

partial_function (option) insertHelper ::
  "BSPNode \<Rightarrow> Polygon \<Rightarrow> (BSPNode \<times> error option) option" where
  "insertHelper node polygon =
     (let classification = classifyPolygon polygon (partition_of node) in
      if classification = COPLANAR then
        Some (BSPNode (partition_of node) (front_of node) (back_of node) (polygons_of node @ [polygon]),
              None)
      else if classification = FRONT then
        (case front_of node of
           None \<Rightarrow>
             (case newLeaf polygon of
                Inl e \<Rightarrow> Some (node, Some e)
              | Inr leaf \<Rightarrow>
                  Some (BSPNode (partition_of node) (Some leaf) (back_of node) (polygons_of node),
                        None))
         | Some child \<Rightarrow>
             Option.bind (insertHelper child polygon) (\<lambda>r.
               Some (BSPNode (partition_of node) (Some (fst r)) (back_of node) (polygons_of node),
                     snd r)))
      else if classification = BACK then
        (case back_of node of
           None \<Rightarrow>
             (case newLeaf polygon of
                Inl e \<Rightarrow> Some (node, Some e)
              | Inr leaf \<Rightarrow>
                  Some (BSPNode (partition_of node) (front_of node) (Some leaf) (polygons_of node),
                        None))
         | Some child \<Rightarrow>
             Option.bind (insertHelper child polygon) (\<lambda>r.
               Some (BSPNode (partition_of node) (front_of node) (Some (fst r)) (polygons_of node),
                     snd r)))
      else
        Option.bind
          (case fst (splitPolygon polygon (partition_of node)) of
             None \<Rightarrow> Some (node, None)
           | Some frontPart \<Rightarrow> insertHelper node frontPart)
          (\<lambda>r. if snd r \<noteq> None then Some r
                else (case snd (splitPolygon polygon (partition_of node)) of
                        None \<Rightarrow> Some r
                      | Some backPart \<Rightarrow> insertHelper (fst r) backPart)))"

definition insert_poly :: "BSPTree \<Rightarrow> Polygon \<Rightarrow> (BSPTree \<times> error option) option" where
  "insert_poly tree polygon =
     (case root_node tree of
        None \<Rightarrow>
          (case newLeaf polygon of
             Inl e \<Rightarrow> Some (tree, Some e)
           | Inr leaf \<Rightarrow> Some (tree\<lparr>root_node := Some leaf\<rparr>, None))
      | Some node \<Rightarrow>
          Option.bind (insertHelper node polygon) (\<lambda>r.
            Some (tree\<lparr>root_node := Some (fst r)\<rparr>, snd r)))"

section \<open>Traversal and introspection\<close>

text \<open>
  \<open>_traverseHelper\<close> only reads the tree; what it does to the world is what the callback
  does, so the model threads the callback's state \<open>s\<close> through the calls.
\<close>

fun traverseHelper :: "BSPNode option \<Rightarrow> Point \<Rightarrow> (BSPNode \<Rightarrow> 's \<Rightarrow> 's) \<Rightarrow> 's \<Rightarrow> 's" where
  "traverseHelper None viewpoint callback s = s"
| "traverseHelper (Some (BSPNode plane fr bk polys)) viewpoint callback s =
     (let node = BSPNode plane fr bk polys;
          dist = pointToPlaneDistance viewpoint plane
      in if dist > Fin 0 then
           traverseHelper fr viewpoint callback
             (callback node (traverseHelper bk viewpoint callback s))
         else
           traverseHelper bk viewpoint callback
             (callback node (traverseHelper fr viewpoint callback s)))"

definition traverseFrontToBack :: "BSPTree \<Rightarrow> Point \<Rightarrow> (BSPNode \<Rightarrow> 's \<Rightarrow> 's) \<Rightarrow> 's \<Rightarrow> 's" where
  "traverseFrontToBack tree viewpoint callback s =
     traverseHelper (root_node tree) viewpoint callback s"

fun getHeight :: "BSPNode option \<Rightarrow> nat" where
  "getHeight None = 0"
| "getHeight (Some (BSPNode plane fr bk polys)) = 1 + max (getHeight fr) (getHeight bk)"

fun countNodes :: "BSPNode option \<Rightarrow> nat" where
  "countNodes None = 0"
| "countNodes (Some (BSPNode plane fr bk polys)) = 1 + countNodes fr + countNodes bk"

text \<open>The caller's loop \<open>samplePolygons.forEach(poly => bspTree.insert(poly))\<close>: an
  exception ends the loop.\<close>

fun insertAll :: "BSPTree \<Rightarrow> Polygon list \<Rightarrow> (BSPTree \<times> error option) option" where
  "insertAll tree [] = Some (tree, None)"
| "insertAll tree (polygon # rest) =
     Option.bind (insert_poly tree polygon) (\<lambda>r.
       if snd r \<noteq> None then Some r else insertAll (fst r) rest)"

text \<open>The caller's \<open>updateRenderOrder\<close>: the callback pushes the node's polygons onto
  \<open>order\<close>.\<close>

definition pushPolygons :: "BSPNode \<Rightarrow> Polygon list \<Rightarrow> Polygon list" where
  "pushPolygons node order = order @ polygons_of node"

definition updateRenderOrder :: "BSPTree \<Rightarrow> Point \<Rightarrow> Polygon list" where
  "updateRenderOrder tree viewpoint = traverseFrontToBack tree viewpoint pushPolygons []"

section \<open>Notions used in the statements\<close>

text \<open>A callback that records the node it is called on, and the sequence of visits it
  records on a subtree.\<close>

definition recordVisit :: "BSPNode \<Rightarrow> BSPNode list \<Rightarrow> BSPNode list" where
  "recordVisit node visited = visited @ [node]"

definition visitOrder :: "BSPNode option \<Rightarrow> Point \<Rightarrow> BSPNode list" where
  "visitOrder t viewpoint = traverseHelper t viewpoint recordVisit []"

text \<open>The nodes of a subtree, one entry for each position.\<close>

fun allNodes :: "BSPNode option \<Rightarrow> BSPNode list" where
  "allNodes None = []"
| "allNodes (Some (BSPNode plane fr bk polys)) =
     BSPNode plane fr bk polys # allNodes fr @ allNodes bk"

text \<open>Every node of the subtree holds at least one polygon.\<close>

fun nonEmptyNodes :: "BSPNode option \<Rightarrow> bool" where
  "nonEmptyNodes None = True"
| "nonEmptyNodes (Some (BSPNode plane fr bk polys)) =
     (polys \<noteq> [] \<and> nonEmptyNodes fr \<and> nonEmptyNodes bk)"

text \<open>
  \<open>grows old new\<close>: the subtree \<open>new\<close> is \<open>old\<close> after mutations of two kinds only,
  polygons appended to the collection of a node of \<open>old\<close>, and nodes put into child slots
  (or a root) that were empty in \<open>old\<close>. Every node of \<open>old\<close> is still there, at its
  place, with its partition.
\<close>

fun grows :: "BSPNode option \<Rightarrow> BSPNode option \<Rightarrow> bool" where
  "grows None new = True"
| "grows (Some (BSPNode plane fr bk polys)) None = False"
| "grows (Some (BSPNode plane fr bk polys)) (Some (BSPNode plane' fr' bk' polys')) =
     (plane' = plane \<and> prefix polys polys' \<and> grows fr fr' \<and> grows bk bk')"

text \<open>A node as the constructor call \<open>new BSPNode(partition, null, null, [polygon])\<close>
  leaves it.\<close>

definition isNewLeaf :: "BSPNode \<Rightarrow> bool" where
  "isNewLeaf node =
     (front_of node = None \<and> back_of node = None \<and> length (polygons_of node) = 1)"

text \<open>
  The number of edges of the polygon that pass the edge test of \<open>splitPolygon\<close>; the
  number of entries that its loop pushes onto both lists, which are the vertices that
  pass both tests \<open>currDist >= 0\<close> and \<open>currDist <= 0\<close> and the intersection points of the
  crossing edges; and the number of vertices of the two fragments it returns together,
  an entry that is in both counted once.
\<close>

definition crossingEdges :: "Polygon \<Rightarrow> Partition \<Rightarrow> nat" where
  "crossingEdges polygon plane =
     length (filter (edgeCrosses polygon plane) [0..<length (points polygon)])"

definition sharedVertices :: "Polygon \<Rightarrow> Partition \<Rightarrow> nat" where
  "sharedVertices polygon plane =
     length (filter (\<lambda>pt. pointToPlaneDistance pt plane \<ge> Fin 0
                         \<and> pointToPlaneDistance pt plane \<le> Fin 0) (points polygon))
     + crossingEdges polygon plane"

definition fragmentVertices :: "Polygon option \<Rightarrow> nat" where
  "fragmentVertices fragment = (case fragment of None \<Rightarrow> 0 | Some part \<Rightarrow> length (points part))"

definition combinedVertexCount :: "Polygon \<Rightarrow> Partition \<Rightarrow> nat" where
  "combinedVertexCount polygon plane =
     fragmentVertices (fst (splitPolygon polygon plane))
     + fragmentVertices (snd (splitPolygon polygon plane))
     - sharedVertices polygon plane"

text \<open>The two vertex counts of \<open>classifyPolygon\<close>, as the specification words them.\<close>

definition frontVertices :: "Polygon \<Rightarrow> Partition \<Rightarrow> nat" where
  "frontVertices polygon plane =
     length (filter (\<lambda>pt. pointToPlaneDistance pt plane > EPSILON) (points polygon))"

definition backVertices :: "Polygon \<Rightarrow> Partition \<Rightarrow> nat" where
  "backVertices polygon plane =
     length (filter (\<lambda>pt. pointToPlaneDistance pt plane < - EPSILON) (points polygon))"

text \<open>
  The partitions of a subtree; \<open>separates plane polygon\<close>: the fragments that
  \<open>splitPolygon\<close> returns lie on their own sides of the plane, as \<open>classifyPolygon\<close> sees
  them; and the polygons that the insertion of a polygon can hand to \<open>_insertHelper\<close>:
  the polygon, and the fragments of such polygons where they are SPANNING.
\<close>

fun planes :: "BSPNode option \<Rightarrow> Partition set" where
  "planes None = {}"
| "planes (Some (BSPNode plane fr bk polys)) = insert plane (planes fr \<union> planes bk)"

definition separates :: "Partition \<Rightarrow> Polygon \<Rightarrow> bool" where
  "separates plane polygon =
     ((case fst (splitPolygon polygon plane) of
         None \<Rightarrow> True
       | Some part \<Rightarrow> classifyPolygon part plane = FRONT)
      \<and> (case snd (splitPolygon polygon plane) of
            None \<Rightarrow> True
          | Some part \<Rightarrow> classifyPolygon part plane = BACK))"

inductive_set pieces :: "Partition set \<Rightarrow> Polygon \<Rightarrow> Polygon set"
  for P :: "Partition set" and polygon :: Polygon where
  whole: "polygon \<in> pieces P polygon"
| front_piece:
    "q \<in> pieces P polygon \<Longrightarrow> plane \<in> P \<Longrightarrow> classifyPolygon q plane = SPANNING \<Longrightarrow>
     fst (splitPolygon q plane) = Some part \<Longrightarrow> part \<in> pieces P polygon"
| back_piece:
    "q \<in> pieces P polygon \<Longrightarrow> plane \<in> P \<Longrightarrow> classifyPolygon q plane = SPANNING \<Longrightarrow>
     snd (splitPolygon q plane) = Some part \<Longrightarrow> part \<in> pieces P polygon"

section \<open>Concrete scenes\<close>

definition mkPoint :: "real \<Rightarrow> real \<Rightarrow> Point" where
  "mkPoint a b = \<lparr>pt_x = Fin a, pt_y = Fin b\<rparr>"

definition emptyTree :: BSPTree where
  "emptyTree = \<lparr>root_node = None\<rparr>"

text \<open>The three squares of the painter-order test, each with its bottom edge first.\<close>

definition squareA :: Polygon where
  "squareA = \<lparr>ident = 1,
     points = [mkPoint 0 0, mkPoint 10 0, mkPoint 10 10, mkPoint 0 10], color = ''#ef4444''\<rparr>"

definition squareB :: Polygon where
  "squareB = \<lparr>ident = 2,
     points = [mkPoint 0 20, mkPoint 10 20, mkPoint 10 30, mkPoint 0 30], color = ''#3b82f6''\<rparr>"

definition squareC :: Polygon where
  "squareC = \<lparr>ident = 3,
     points = [mkPoint 0 (- 30), mkPoint 10 (- 30), mkPoint 10 (- 20), mkPoint 0 (- 20)],
     color = ''#10b981''\<rparr>"

definition horizontalPlane :: "real \<Rightarrow> Partition" where
  "horizontalPlane h = \<lparr>point = mkPoint 0 h, normal = mkPoint 0 1\<rparr>"

definition threeSquareTree :: BSPTree where
  "threeSquareTree =
     \<lparr>root_node = Some (BSPNode (horizontalPlane 0)
        (Some (BSPNode (horizontalPlane 20) None None [squareB]))
        (Some (BSPNode (horizontalPlane (- 30)) None None [squareC]))
        [squareA])\<rparr>"

text \<open>A square that the line \<open>y = 0\<close> cuts in two, its two halves, a thin strip inside
  the tolerance band of that line, a triangle whose first two vertices coincide, and a
  polygon of two vertices.\<close>

definition cutSquare :: Polygon where
  "cutSquare = \<lparr>ident = 4,
     points = [mkPoint 0 (- 5), mkPoint 10 (- 5), mkPoint 10 5, mkPoint 0 5], color = ''#f59e0b''\<rparr>"

definition cutSquareFront :: Polygon where
  "cutSquareFront = cutSquare\<lparr>points := [mkPoint 10 0, mkPoint 10 5, mkPoint 0 5, mkPoint 0 0]\<rparr>"

definition cutSquareBack :: Polygon where
  "cutSquareBack =
     cutSquare\<lparr>points := [mkPoint 0 (- 5), mkPoint 10 (- 5), mkPoint 10 0, mkPoint 0 0]\<rparr>"

definition thinStrip :: Polygon where
  "thinStrip = \<lparr>ident = 5,
     points = [mkPoint 0 (1 / 16), mkPoint 10 (1 / 16), mkPoint 10 (- 1 / 16)], color = ''#8b5cf6''\<rparr>"

definition degenerateTriangle :: Polygon where
  "degenerateTriangle = \<lparr>ident = 6,
     points = [mkPoint 0 0, mkPoint 0 0, mkPoint 10 10], color = ''#ef4444''\<rparr>"

definition twoGon :: Polygon where
  "twoGon = \<lparr>ident = 7, points = [mkPoint 0 0, mkPoint 10 0], color = ''#3b82f6''\<rparr>"

text \<open>A quadrilateral that the line \<open>y = 0\<close> cuts twice and whose last vertex has a
  \<open>NaN\<close> coordinate, and the two fragments of it.\<close>

definition nanQuad :: Polygon where
  "nanQuad = \<lparr>ident = 11,
     points = [mkPoint 0 5, mkPoint 10 (- 5), mkPoint 20 5, \<lparr>pt_x = Fin 10, pt_y = NaN\<rparr>],
     color = ''#10b981''\<rparr>"

definition nanQuadFront :: Polygon where
  "nanQuadFront = nanQuad\<lparr>points := [mkPoint 0 5, mkPoint 5 0, mkPoint 15 0, mkPoint 20 5]\<rparr>"

definition nanQuadBack :: Polygon where
  "nanQuadBack = nanQuad\<lparr>points := [mkPoint 5 0, mkPoint 10 (- 5), mkPoint 15 0]\<rparr>"

text \<open>A unit square on the line \<open>y = 2\<close>, the tree that holds it alone, and a triangle
  that reaches far above that line.\<close>

definition raisedSquare :: Polygon where
  "raisedSquare = \<lparr>ident = 9,
     points = [mkPoint 0 2, mkPoint 1 2, mkPoint 1 3, mkPoint 0 3], color = ''#f59e0b''\<rparr>"

definition raisedTree :: BSPTree where
  "raisedTree = \<lparr>root_node = Some (BSPNode (horizontalPlane 2) None None [raisedSquare])\<rparr>"

definition tallTriangle :: Polygon where
  "tallTriangle = \<lparr>ident = 10,
     points = [mkPoint 0 (10 ^ 17), mkPoint 0 0, mkPoint 1 2], color = ''#8b5cf6''\<rparr>"

section \<open>Evaluating the model\<close>

lemmas number_ops =
  plus_number_def uminus_number_def minus_number_def times_number_def
  divide_number_def less_number_def less_eq_number_def

lemmas rnd_eval =
  rnd_def roundMagnitude_def roundHalfEven_def ilog2_def ilog2_up.simps ilog2_down.simps

lemmas number_arith = number_ops rnd_eval

lemma rnd_zero: "rnd 0 = Fin 0"
  by (simp add: rnd_def)

lemma EPSILON_value: "EPSILON = Fin (3602879701896397 / 36028797018963968)"
  by (simp add: EPSILON_def rnd_eval Let_def)

lemmas classify_defs =
  classifyPolygon_def classifyCounts_def classifyStep_def pointToPlaneDistance_def
  EPSILON_value

lemmas scene_defs = squareA_def squareB_def squareC_def mkPoint_def horizontalPlane_def

lemma sqrt_100: "sqrt 100 = 10"
  using real_sqrt_abs [of 10] by simp

section \<open>The three-square scene\<close>

lemma createPartition_squareA: "createPartition squareA = Inr (horizontalPlane 0)"
  by (simp add: createPartition_def scene_defs number_arith sqrt_100 Let_def)

lemma createPartition_squareB: "createPartition squareB = Inr (horizontalPlane 20)"
  by (simp add: createPartition_def scene_defs number_arith sqrt_100 Let_def)

lemma createPartition_squareC: "createPartition squareC = Inr (horizontalPlane (- 30))"
  by (simp add: createPartition_def scene_defs number_arith sqrt_100 Let_def)

lemma classify_squareB: "classifyPolygon squareB (horizontalPlane 0) = FRONT"
  by (simp add: classify_defs scene_defs number_arith Let_def)

lemma classify_squareC: "classifyPolygon squareC (horizontalPlane 0) = BACK"
  by (simp add: classify_defs scene_defs number_arith Let_def)

lemma insert_squareA:
  "insert_poly emptyTree squareA =
     Some (\<lparr>root_node = Some (BSPNode (horizontalPlane 0) None None [squareA])\<rparr>, None)"
  by (simp add: insert_poly_def emptyTree_def newLeaf_def createPartition_squareA)

lemma insert_squareB:
  "insert_poly \<lparr>root_node = Some (BSPNode (horizontalPlane 0) None None [squareA])\<rparr> squareB =
     Some (\<lparr>root_node = Some (BSPNode (horizontalPlane 0)
        (Some (BSPNode (horizontalPlane 20) None None [squareB])) None [squareA])\<rparr>, None)"
  by (simp add: insert_poly_def
      insertHelper.simps [of "BSPNode (horizontalPlane 0) None None [squareA]"]
      newLeaf_def createPartition_squareB classify_squareB)

lemma insert_squareC:
  "insert_poly \<lparr>root_node = Some (BSPNode (horizontalPlane 0)
        (Some (BSPNode (horizontalPlane 20) None None [squareB])) None [squareA])\<rparr> squareC =
     Some (threeSquareTree, None)"
  by (simp add: insert_poly_def threeSquareTree_def
      insertHelper.simps [of "BSPNode (horizontalPlane 0)
        (Some (BSPNode (horizontalPlane 20) None None [squareB])) None [squareA]"]
      newLeaf_def createPartition_squareC classify_squareC)

text \<open>
  C1. Inserting square A (id 1), then B (id 2), then C (id 3) into the empty tree raises
  nothing and gives the tree whose root holds A on the plane through \<open>(0,0)\<close> with normal
  \<open>(0,1)\<close>, whose front child is the leaf of B and whose back child is the leaf of C; from
  the viewpoint \<open>(5,50)\<close> the polygons are emitted in the identifier order 3, 1, 2.
\<close>

theorem three_square_scene:
  "insertAll emptyTree [squareA, squareB, squareC] = Some (threeSquareTree, None)
   \<and> root_node threeSquareTree =
       Some (BSPNode \<lparr>point = mkPoint 0 0, normal = mkPoint 0 1\<rparr>
         (Some (BSPNode (horizontalPlane 20) None None [squareB]))
         (Some (BSPNode (horizontalPlane (- 30)) None None [squareC]))
         [squareA])
   \<and> map ident (updateRenderOrder threeSquareTree (mkPoint 5 50)) = [3, 1, 2]"
proof (intro conjI)
  show "insertAll emptyTree [squareA, squareB, squareC] = Some (threeSquareTree, None)"
    by (simp add: insert_squareA insert_squareB insert_squareC)
  show "root_node threeSquareTree =
       Some (BSPNode \<lparr>point = mkPoint 0 0, normal = mkPoint 0 1\<rparr>
         (Some (BSPNode (horizontalPlane 20) None None [squareB]))
         (Some (BSPNode (horizontalPlane (- 30)) None None [squareC]))
         [squareA])"
    by (simp add: threeSquareTree_def horizontalPlane_def)
  show "map ident (updateRenderOrder threeSquareTree (mkPoint 5 50)) = [3, 1, 2]"
    by (simp add: updateRenderOrder_def traverseFrontToBack_def threeSquareTree_def
        pushPolygons_def pointToPlaneDistance_def scene_defs number_arith Let_def)
qed

section \<open>Traversal\<close>

lemma visitOrder_None: "visitOrder None viewpoint = []"
  by (simp add: visitOrder_def)

lemma traverseHelper_record:
  "traverseHelper t viewpoint recordVisit visited = visited @ visitOrder t viewpoint"
proof (induction t arbitrary: visited rule: allNodes.induct)
  case 1
  show ?case by (simp add: visitOrder_def)
next
  case (2 plane fr bk polys)
  have fr: "traverseHelper fr viewpoint recordVisit l = l @ visitOrder fr viewpoint" for l
    by (rule "2.IH"(1))
  have bk: "traverseHelper bk viewpoint recordVisit l = l @ visitOrder bk viewpoint" for l
    by (rule "2.IH"(2))
  have "visitOrder (Some (BSPNode plane fr bk polys)) viewpoint =
        traverseHelper (Some (BSPNode plane fr bk polys)) viewpoint recordVisit []"
    by (simp only: visitOrder_def)
  then show ?case
    by (simp add: fr bk Let_def) (simp add: recordVisit_def)
qed

lemma visitOrder_Some:
  "visitOrder (Some node) viewpoint =
     (if pointToPlaneDistance viewpoint (partition_of node) > Fin 0
      then visitOrder (back_of node) viewpoint @ [node] @ visitOrder (front_of node) viewpoint
      else visitOrder (front_of node) viewpoint @ [node] @ visitOrder (back_of node) viewpoint)"
proof (cases node)
  case (BSPNode plane fr bk polys)
  have "visitOrder (Some node) viewpoint = traverseHelper (Some node) viewpoint recordVisit []"
    by (simp only: visitOrder_def)
  also have "\<dots> =
     (if pointToPlaneDistance viewpoint (partition_of node) > Fin 0
      then visitOrder (back_of node) viewpoint @ [node] @ visitOrder (front_of node) viewpoint
      else visitOrder (front_of node) viewpoint @ [node] @ visitOrder (back_of node) viewpoint)"
    unfolding BSPNode
    apply (simp only: traverseHelper.simps Let_def BSPNode.sel)
    apply (simp only: traverseHelper_record)
    apply (simp add: recordVisit_def)
    done
  finally show ?thesis .
qed

lemma traverseHelper_fold:
  "traverseHelper t viewpoint callback s = fold callback (visitOrder t viewpoint) s"
proof (induction t arbitrary: s rule: allNodes.induct)
  case 1
  show ?case by (simp add: visitOrder_None)
next
  case (2 plane fr bk polys)
  show ?case
    by (simp add: visitOrder_Some "2.IH" Let_def)
qed

lemma length_visitOrder: "length (visitOrder t viewpoint) = countNodes t"
  by (induction t rule: allNodes.induct) (simp_all add: visitOrder_None visitOrder_Some)

lemma mset_visitOrder: "mset (visitOrder t viewpoint) = mset (allNodes t)"
  by (induction t rule: allNodes.induct) (simp_all add: visitOrder_None visitOrder_Some)

text \<open>
  C6. For every tree and viewpoint, the sequence of nodes the traversal calls the callback
  on has every node of the tree exactly once (it is a permutation of the tree's nodes), so
  its length is \<open>countNodes\<close>; running the traversal with any callback is running that
  callback along this sequence; and at each node the sequence is back subtree, node, front
  subtree when the viewpoint's signed distance to the node's partition is \<open>> 0\<close>, and
  front subtree, node, back subtree otherwise.
\<close>

theorem traverse_visits_each_node_once:
  "mset (visitOrder (root_node tree) viewpoint) = mset (allNodes (root_node tree))
   \<and> length (visitOrder (root_node tree) viewpoint) = countNodes (root_node tree)
   \<and> traverseFrontToBack tree viewpoint callback s =
       fold callback (visitOrder (root_node tree) viewpoint) s
   \<and> visitOrder None viewpoint = []
   \<and> visitOrder (Some node) viewpoint =
       (if pointToPlaneDistance viewpoint (partition_of node) > Fin 0
        then visitOrder (back_of node) viewpoint @ [node] @ visitOrder (front_of node) viewpoint
        else visitOrder (front_of node) viewpoint @ [node] @ visitOrder (back_of node) viewpoint)"
  using visitOrder_Some [of node viewpoint]
  by (simp add: mset_visitOrder length_visitOrder traverseFrontToBack_def
      traverseHelper_fold [of _ _ callback] visitOrder_None)

lemma fold_pushPolygons:
  "fold pushPolygons nodes order = order @ concat (map polygons_of nodes)"
  by (induction nodes arbitrary: order) (simp_all add: pushPolygons_def)

text \<open>
  C8. Two calls of \<open>traverseFrontToBack\<close> with the same viewpoint on the same tree, with
  the callback that pushes each node's polygons, emit the same sequence: whatever had
  been emitted before, the two calls append \<open>updateRenderOrder tree viewpoint\<close> twice.
  The traversal has no access to the tree other than reading it.
\<close>

theorem traverse_twice_same_sequence:
  "traverseFrontToBack tree viewpoint pushPolygons
     (traverseFrontToBack tree viewpoint pushPolygons order) =
   order @ updateRenderOrder tree viewpoint @ updateRenderOrder tree viewpoint"
  by (simp add: updateRenderOrder_def traverseFrontToBack_def
      traverseHelper_fold [of _ _ pushPolygons] fold_pushPolygons)

section \<open>Classification\<close>

lemma below_band_not_above: "u < - EPSILON \<Longrightarrow> \<not> EPSILON < u"
  by (cases u) (simp_all add: EPSILON_value number_ops)

lemma in_band_not_counted:
  "- EPSILON \<le> u \<Longrightarrow> u \<le> EPSILON \<Longrightarrow> \<not> EPSILON < u \<and> \<not> u < - EPSILON"
  by (cases u) (auto simp add: EPSILON_value number_ops)

lemma fold_classifyStep:
  "fold (classifyStep plane) pts (a, b) =
     (a + length (filter (\<lambda>pt. pointToPlaneDistance pt plane > EPSILON) pts),
      b + length (filter (\<lambda>pt. pointToPlaneDistance pt plane < - EPSILON) pts))"
proof (induction pts arbitrary: a b)
  case Nil
  show ?case by simp
next
  case (Cons pt pts)
  have step: "classifyStep plane pt (a, b) =
      (if pointToPlaneDistance pt plane > EPSILON then (a + 1, b)
       else if pointToPlaneDistance pt plane < - EPSILON then (a, b + 1)
       else (a, b))"
    by (simp add: classifyStep_def Let_def)
  show ?case
    using below_band_not_above [of "pointToPlaneDistance pt plane"]
    by (simp add: step Cons.IH)
qed

lemma classifyCounts_eq:
  "classifyCounts polygon plane = (frontVertices polygon plane, backVertices polygon plane)"
  by (simp add: classifyCounts_def fold_classifyStep frontVertices_def backVertices_def)

lemma classifyPolygon_cases:
  "classifyPolygon polygon plane =
     (if frontVertices polygon plane > 0 \<and> backVertices polygon plane = 0 then FRONT
      else if backVertices polygon plane > 0 \<and> frontVertices polygon plane = 0 then BACK
      else if frontVertices polygon plane = 0 \<and> backVertices polygon plane = 0 then COPLANAR
      else SPANNING)"
  by (simp add: classifyPolygon_def classifyCounts_eq)

lemma band_counts_zero:
  assumes "\<forall>pt\<in>set (points polygon).
      - EPSILON \<le> pointToPlaneDistance pt plane \<and> pointToPlaneDistance pt plane \<le> EPSILON"
  shows "frontVertices polygon plane = 0 \<and> backVertices polygon plane = 0"
  using assms in_band_not_counted
  by (auto simp add: frontVertices_def backVertices_def filter_empty_conv)

text \<open>
  C2. For every polygon and partition, the two counters of \<open>classifyPolygon\<close> are the
  number of vertices whose signed distance is strictly greater than \<open>EPSILON\<close> and the
  number of those strictly less than \<open>- EPSILON\<close>; the result is FRONT exactly when the
  first is positive and the second zero, BACK exactly when the second is positive and the
  first zero, COPLANAR exactly when both are zero and SPANNING exactly when both are
  positive; a polygon all of whose vertices are within the band is COPLANAR.
\<close>

theorem classifyPolygon_table:
  "classifyCounts polygon plane = (frontVertices polygon plane, backVertices polygon plane)
   \<and> (classifyPolygon polygon plane = FRONT \<longleftrightarrow>
        frontVertices polygon plane > 0 \<and> backVertices polygon plane = 0)
   \<and> (classifyPolygon polygon plane = BACK \<longleftrightarrow>
        backVertices polygon plane > 0 \<and> frontVertices polygon plane = 0)
   \<and> (classifyPolygon polygon plane = COPLANAR \<longleftrightarrow>
        frontVertices polygon plane = 0 \<and> backVertices polygon plane = 0)
   \<and> (classifyPolygon polygon plane = SPANNING \<longleftrightarrow>
        frontVertices polygon plane > 0 \<and> backVertices polygon plane > 0)
   \<and> ((\<forall>pt\<in>set (points polygon).
          - EPSILON \<le> pointToPlaneDistance pt plane \<and> pointToPlaneDistance pt plane \<le> EPSILON)
        \<longrightarrow> classifyPolygon polygon plane = COPLANAR)"
proof (intro conjI impI)
  show "classifyCounts polygon plane = (frontVertices polygon plane, backVertices polygon plane)"
    by (rule classifyCounts_eq)
  show "classifyPolygon polygon plane = FRONT \<longleftrightarrow>
        frontVertices polygon plane > 0 \<and> backVertices polygon plane = 0"
    by (simp add: classifyPolygon_cases)
  show "classifyPolygon polygon plane = BACK \<longleftrightarrow>
        backVertices polygon plane > 0 \<and> frontVertices polygon plane = 0"
    by (simp add: classifyPolygon_cases)
  show "classifyPolygon polygon plane = COPLANAR \<longleftrightarrow>
        frontVertices polygon plane = 0 \<and> backVertices polygon plane = 0"
    by (simp add: classifyPolygon_cases)
  show "classifyPolygon polygon plane = SPANNING \<longleftrightarrow>
        frontVertices polygon plane > 0 \<and> backVertices polygon plane > 0"
    by (simp add: classifyPolygon_cases)
next
  assume "\<forall>pt\<in>set (points polygon).
      - EPSILON \<le> pointToPlaneDistance pt plane \<and> pointToPlaneDistance pt plane \<le> EPSILON"
  then show "classifyPolygon polygon plane = COPLANAR"
    using band_counts_zero [of polygon plane] by (simp add: classifyPolygon_cases)
qed

lemmas scene2_defs = cutSquare_def cutSquareFront_def cutSquareBack_def thinStrip_def
  degenerateTriangle_def twoGon_def mkPoint_def horizontalPlane_def

text \<open>
  The thin strip has its three vertices at distance \<open>1/16\<close> from the line \<open>y = 0\<close>.
\<close>

theorem classifyPolygon_table_witness:
  "classifyPolygon thinStrip (horizontalPlane 0) = COPLANAR
   \<and> classifyCounts thinStrip (horizontalPlane 0) = (0, 0)"
proof -
  have band: "\<forall>pt\<in>set (points thinStrip).
       - EPSILON \<le> pointToPlaneDistance pt (horizontalPlane 0)
       \<and> pointToPlaneDistance pt (horizontalPlane 0) \<le> EPSILON"
    by (simp add: scene2_defs pointToPlaneDistance_def EPSILON_value number_arith Let_def)
  show ?thesis
    using band classifyPolygon_table [of thinStrip "horizontalPlane 0"] by auto
qed

section \<open>Clipping\<close>

lemma fold_splitStep_length:
  "length (fst (fold (splitStep polygon plane) is acc))
     + length (snd (fold (splitStep polygon plane) is acc)) =
   length (fst acc) + length (snd acc)
     + length (filter (\<lambda>i. pointToPlaneDistance (points polygon ! i) plane \<ge> Fin 0) is)
     + length (filter (\<lambda>i. pointToPlaneDistance (points polygon ! i) plane \<le> Fin 0) is)
     + 2 * length (filter (edgeCrosses polygon plane) is)"
proof (induction "is" arbitrary: acc)
  case Nil
  show ?case by simp
next
  case (Cons i "is")
  show ?case
    by (simp add: Cons.IH) (simp add: splitStep_def Let_def)
qed

lemma length_filter_nth:
  "length (filter (\<lambda>i. P (xs ! i)) [0..<length xs]) = length (filter P xs)"
proof -
  have "filter P xs = filter P (map ((!) xs) [0..<length xs])"
    by (simp add: map_nth)
  also have "\<dots> = map ((!) xs) (filter (\<lambda>i. P (xs ! i)) [0..<length xs])"
    by (simp add: filter_map comp_def)
  finally show ?thesis by simp
qed

lemma splitLists_length:
  "length (fst (splitLists polygon plane)) + length (snd (splitLists polygon plane)) =
     length (filter (\<lambda>pt. pointToPlaneDistance pt plane \<ge> Fin 0) (points polygon))
     + length (filter (\<lambda>pt. pointToPlaneDistance pt plane \<le> Fin 0) (points polygon))
     + 2 * crossingEdges polygon plane"
  by (simp add: splitLists_def fold_splitStep_length crossingEdges_def
      length_filter_nth [of "\<lambda>pt. pointToPlaneDistance pt plane \<ge> Fin 0"]
      length_filter_nth [of "\<lambda>pt. pointToPlaneDistance pt plane \<le> Fin 0"])

lemma number_sides:
  "u \<noteq> NaN \<Longrightarrow> (Fin 0 \<le> u \<and> u \<le> Fin 0 \<longleftrightarrow> u = Fin 0) \<and> (Fin 0 \<le> u \<or> u \<le> Fin 0)"
  by (cases u) (auto simp add: number_ops)

lemma both_sides_count:
  assumes "\<forall>pt\<in>set pts. pointToPlaneDistance pt plane \<noteq> NaN"
  shows "length (filter (\<lambda>pt. pointToPlaneDistance pt plane \<ge> Fin 0) pts)
     + length (filter (\<lambda>pt. pointToPlaneDistance pt plane \<le> Fin 0) pts) =
     length pts
     + length (filter (\<lambda>pt. pointToPlaneDistance pt plane \<ge> Fin 0
                            \<and> pointToPlaneDistance pt plane \<le> Fin 0) pts)"
  using assms
proof (induction pts)
  case Nil
  show ?case by simp
next
  case (Cons pt pts)
  then show ?case
    using number_sides [of "pointToPlaneDistance pt plane"] by auto
qed

text \<open>Both lists of a spanning polygon have at least three entries.\<close>

lemma above_band_positive: "EPSILON < u \<Longrightarrow> Fin 0 < u"
  by (cases u) (simp_all add: EPSILON_value number_ops)

lemma below_band_negative: "u < - EPSILON \<Longrightarrow> u < Fin 0"
  by (cases u) (simp_all add: EPSILON_value number_ops)

lemma number_sign:
  "u \<noteq> NaN \<Longrightarrow> Fin 0 < u \<or> u < Fin 0 \<or> u = Fin 0"
  by (cases u) (auto simp add: number_ops)

lemma number_ge0: "Fin 0 \<le> u \<longleftrightarrow> Fin 0 < u \<or> u = Fin 0"
  by (cases u) (auto simp add: number_ops)

lemma number_le0: "u \<le> Fin 0 \<longleftrightarrow> u < Fin 0 \<or> u = Fin 0"
  by (cases u) (auto simp add: number_ops)

lemma number_pos_neg: "Fin 0 < u \<Longrightarrow> \<not> u < Fin 0 \<and> u \<noteq> Fin 0"
  by (cases u) (auto simp add: number_ops)

lemma number_neg_pos: "u < Fin 0 \<Longrightarrow> \<not> Fin 0 < u \<and> u \<noteq> Fin 0"
  by (cases u) (auto simp add: number_ops)

text \<open>Around a cycle of \<open>n\<close> places, a property that holds somewhere and fails somewhere
  holds at a place whose successor it fails at.\<close>

lemma cycle_leaves:
  fixes n :: nat
  assumes "i0 < n" and "P i0" and "j < n" and "\<not> P j"
  shows "\<exists>i<n. P i \<and> \<not> P ((i + 1) mod n)"
proof (rule ccontr)
  assume "\<not> (\<exists>i<n. P i \<and> \<not> P ((i + 1) mod n))"
  then have step: "\<And>i. i < n \<Longrightarrow> P i \<Longrightarrow> P ((i + 1) mod n)" by blast
  have n: "0 < n" using assms(1) by simp
  have all: "P ((i0 + k) mod n)" for k
  proof (induction k)
    case 0
    show ?case using assms(1,2) by simp
  next
    case (Suc k)
    have "(i0 + k) mod n < n" using n by simp
    from step [OF this Suc] have "P (((i0 + k) mod n + 1) mod n)" .
    moreover have "((i0 + k) mod n + 1) mod n = (i0 + Suc k) mod n"
      by (simp add: mod_Suc_eq)
    ultimately show ?case by simp
  qed
  have "(i0 + (n - i0 + j)) mod n = j"
    using assms(1,3) by simp
  with all [of "n - i0 + j"] assms(4) show False by simp
qed

lemma successor_distinct:
  fixes n :: nat
  assumes "a < n" and "b < n" and "a \<noteq> b"
  shows "(a + 1) mod n \<noteq> (b + 1) mod n"
proof
  assume eq: "(a + 1) mod n = (b + 1) mod n"
  have "a = b"
  proof (cases "a + 1 = n")
    case True
    with eq assms(2) have "(b + 1) mod n = 0" by simp
    with assms(2) have "b + 1 = n" by (metis Suc_eq_plus1 Suc_lessI mod_less less_nat_zero_code add_is_0 zero_neq_one)
    with True show ?thesis by simp
  next
    case False
    with assms(1) have a: "(a + 1) mod n = a + 1" by simp
    show ?thesis
    proof (cases "b + 1 = n")
      case True
      with eq a show ?thesis by simp
    next
      case False
      with assms(2) have "(b + 1) mod n = b + 1" by simp
      with eq a show ?thesis by simp
    qed
  qed
  with assms(3) show False by simp
qed

lemma card_two: "finite S \<Longrightarrow> a \<in> S \<Longrightarrow> b \<in> S \<Longrightarrow> a \<noteq> b \<Longrightarrow> 2 \<le> card S"
  using card_mono [of S "{a, b}"] by simp

lemma card_three:
  "finite S \<Longrightarrow> a \<in> S \<Longrightarrow> b \<in> S \<Longrightarrow> c \<in> S \<Longrightarrow> a \<noteq> b \<Longrightarrow> a \<noteq> c \<Longrightarrow> b \<noteq> c \<Longrightarrow>
   3 \<le> card S"
  using card_mono [of S "{a, b, c}"] by simp

lemma card_one: "finite S \<Longrightarrow> a \<in> S \<Longrightarrow> 1 \<le> card S"
  using card_mono [of S "{a}"] by simp

lemma three_entries:
  assumes "finite G" and "finite C" and p: "p \<in> G"
    and zero: "\<And>z. Z z \<Longrightarrow> z \<in> G \<and> z \<noteq> p"
    and evA: "a \<in> C \<or> Z za" and evB: "b \<in> C \<or> Z zb"
    and "a \<noteq> b" and "za \<noteq> zb"
  shows "3 \<le> card G + card C"
proof -
  consider (cc) "a \<in> C" "b \<in> C" | (cz) "a \<in> C" "Z zb" | (zc) "Z za" "b \<in> C"
    | (zz) "Z za" "Z zb"
    using evA evB by blast
  then show ?thesis
  proof cases
    case cc
    then have "2 \<le> card C" using card_two [of C a b] assms by simp
    moreover have "1 \<le> card G" using card_one [of G p] assms by simp
    ultimately show ?thesis by simp
  next
    case cz
    then have "2 \<le> card G" using card_two [of G p zb] zero [of zb] assms by auto
    moreover have "1 \<le> card C" using card_one [of C a] cz assms by simp
    ultimately show ?thesis by simp
  next
    case zc
    then have "2 \<le> card G" using card_two [of G p za] zero [of za] assms by auto
    moreover have "1 \<le> card C" using card_one [of C b] zc assms by simp
    ultimately show ?thesis by simp
  next
    case zz
    then have "3 \<le> card G"
      using card_three [of G p za zb] zero [of za] zero [of zb] assms by auto
    then show ?thesis by simp
  qed
qed


lemma fold_splitStep_fst:
  "length (fst (fold (splitStep polygon plane) is acc)) =
   length (fst acc)
     + length (filter (\<lambda>i. pointToPlaneDistance (points polygon ! i) plane \<ge> Fin 0) is)
     + length (filter (edgeCrosses polygon plane) is)"
proof (induction "is" arbitrary: acc)
  case Nil
  show ?case by simp
next
  case (Cons i "is")
  show ?case
    by (simp add: Cons.IH) (simp add: splitStep_def Let_def)
qed

lemma fold_splitStep_snd:
  "length (snd (fold (splitStep polygon plane) is acc)) =
   length (snd acc)
     + length (filter (\<lambda>i. pointToPlaneDistance (points polygon ! i) plane \<le> Fin 0) is)
     + length (filter (edgeCrosses polygon plane) is)"
proof (induction "is" arbitrary: acc)
  case Nil
  show ?case by simp
next
  case (Cons i "is")
  show ?case
    by (simp add: Cons.IH) (simp add: splitStep_def Let_def)
qed

lemma length_filter_upt: "length (filter Q [0..<n]) = card {i. i < n \<and> Q i}"
proof -
  have "{i. i < length [0..<n] \<and> Q ([0..<n] ! i)} = {i. i < n \<and> Q i}"
    by auto
  then show ?thesis
    by (simp add: length_filter_conv_card)
qed

lemma spanning_lists_long:
  assumes span: "classifyPolygon polygon plane = SPANNING"
    and nonan: "\<forall>pt\<in>set (points polygon). pointToPlaneDistance pt plane \<noteq> NaN"
  shows "3 \<le> length (fst (splitLists polygon plane))
         \<and> 3 \<le> length (snd (splitLists polygon plane))"
proof -
  define n where "n = length (points polygon)"
  define d where "d i = pointToPlaneDistance (points polygon ! i) plane" for i
  define C where "C = {i. i < n \<and> edgeCrosses polygon plane i}"
  define Z where "Z i \<longleftrightarrow> i < n \<and> d i = Fin 0" for i
  from span have counts: "0 < frontVertices polygon plane" "0 < backVertices polygon plane"
    by (auto simp add: classifyPolygon_cases split: if_splits)
  from counts(1) obtain ptf where "ptf \<in> set (points polygon)"
    and "EPSILON < pointToPlaneDistance ptf plane"
    by (auto simp add: frontVertices_def filter_empty_conv)
  then obtain ip where ip: "ip < n" "Fin 0 < d ip"
    using above_band_positive by (auto simp add: in_set_conv_nth n_def d_def)
  from counts(2) obtain ptb where "ptb \<in> set (points polygon)"
    and "pointToPlaneDistance ptb plane < - EPSILON"
    by (auto simp add: backVertices_def filter_empty_conv)
  then obtain im where im: "im < n" "d im < Fin 0"
    using below_band_negative by (auto simp add: in_set_conv_nth n_def d_def)
  have valued: "d i \<noteq> NaN" if "i < n" for i
    using nonan that by (simp add: n_def d_def)
  have n: "0 < n" using ip(1) by simp
  from cycle_leaves [of ip n "\<lambda>i. Fin 0 < d i" im] ip im number_neg_pos [of "d im"]
  obtain a where a: "a < n" "Fin 0 < d a" "\<not> Fin 0 < d ((a + 1) mod n)"
    by auto
  from cycle_leaves [of im n "\<lambda>i. d i < Fin 0" ip] ip im number_pos_neg [of "d ip"]
  obtain b where b: "b < n" "d b < Fin 0" "\<not> d ((b + 1) mod n) < Fin 0"
    by auto
  have crosses: "edgeCrosses polygon plane i \<longleftrightarrow>
      (Fin 0 < d i \<and> d ((i + 1) mod n) < Fin 0) \<or> (d i < Fin 0 \<and> Fin 0 < d ((i + 1) mod n))"
    for i
    by (simp add: edgeCrosses_def Let_def d_def n_def)
  have succ: "(i + 1) mod n < n" for i using n by simp
  have evA: "a \<in> C \<or> Z ((a + 1) mod n)"
    using a succ [of a] valued [OF succ [of a]] number_sign [of "d ((a + 1) mod n)"]
    by (auto simp add: C_def Z_def crosses)
  have evB: "b \<in> C \<or> Z ((b + 1) mod n)"
    using b succ [of b] valued [OF succ [of b]] number_sign [of "d ((b + 1) mod n)"]
    by (auto simp add: C_def Z_def crosses)
  have ab: "a \<noteq> b"
    using a(2) b(2) number_pos_neg [of "d a"] by auto
  have succ_ab: "(a + 1) mod n \<noteq> (b + 1) mod n"
    by (rule successor_distinct [OF a(1) b(1) ab])
  have finC: "finite C" by (simp add: C_def)
  have front_len: "3 \<le> card {i. i < n \<and> Fin 0 \<le> d i} + card C"
  proof (rule three_entries [where p = ip and Z = Z, OF _ finC _ _ evA evB ab succ_ab])
    show "finite {i. i < n \<and> Fin 0 \<le> d i}" by simp
    show "ip \<in> {i. i < n \<and> Fin 0 \<le> d i}" using ip by (simp add: number_ge0)
    show "z \<in> {i. i < n \<and> Fin 0 \<le> d i} \<and> z \<noteq> ip" if "Z z" for z
      using that ip(2) number_pos_neg [of "d ip"] by (auto simp add: Z_def number_ge0)
  qed
  have back_len: "3 \<le> card {i. i < n \<and> d i \<le> Fin 0} + card C"
  proof (rule three_entries [where p = im and Z = Z, OF _ finC _ _ evA evB ab succ_ab])
    show "finite {i. i < n \<and> d i \<le> Fin 0}" by simp
    show "im \<in> {i. i < n \<and> d i \<le> Fin 0}" using im by (simp add: number_le0)
    show "z \<in> {i. i < n \<and> d i \<le> Fin 0} \<and> z \<noteq> im" if "Z z" for z
      using that im(2) number_neg_pos [of "d im"] by (auto simp add: Z_def number_le0)
  qed
  have "length (fst (splitLists polygon plane)) = card {i. i < n \<and> Fin 0 \<le> d i} + card C"
    by (simp add: splitLists_def fold_splitStep_fst length_filter_upt n_def d_def C_def)
  moreover have
    "length (snd (splitLists polygon plane)) = card {i. i < n \<and> d i \<le> Fin 0} + card C"
    by (simp add: splitLists_def fold_splitStep_snd length_filter_upt n_def d_def C_def)
  ultimately show ?thesis using front_len back_len by simp
qed

lemma splitPolygon_fst:
  "fst (splitPolygon polygon plane) =
     (if 3 \<le> length (fst (splitLists polygon plane))
      then Some (polygon\<lparr>points := fst (splitLists polygon plane)\<rparr>) else None)"
  by (simp add: splitPolygon_def split_def Let_def)

lemma splitPolygon_snd:
  "snd (splitPolygon polygon plane) =
     (if 3 \<le> length (snd (splitLists polygon plane))
      then Some (polygon\<lparr>points := snd (splitLists polygon plane)\<rparr>) else None)"
  by (simp add: splitPolygon_def split_def Let_def)

lemma splitPolygon_front_part:
  assumes "fst (splitPolygon polygon plane) = Some part"
  shows "part = polygon\<lparr>points := fst (splitLists polygon plane)\<rparr>
         \<and> 3 \<le> length (fst (splitLists polygon plane))"
  using assms by (simp add: splitPolygon_fst split: if_splits)

lemma splitPolygon_back_part:
  assumes "snd (splitPolygon polygon plane) = Some part"
  shows "part = polygon\<lparr>points := snd (splitLists polygon plane)\<rparr>
         \<and> 3 \<le> length (snd (splitLists polygon plane))"
  using assms by (simp add: splitPolygon_snd split: if_splits)

lemma fragment_at_least_three:
  assumes "fst (splitPolygon polygon plane) = Some part
           \<or> snd (splitPolygon polygon plane) = Some part"
  shows "3 \<le> length (points part)"
  using assms splitPolygon_front_part [of polygon plane part]
    splitPolygon_back_part [of polygon plane part]
  by auto

lemma combinedVertexCount_spanning:
  assumes "classifyPolygon polygon plane = SPANNING"
    and "\<forall>pt\<in>set (points polygon). pointToPlaneDistance pt plane \<noteq> NaN"
  shows "combinedVertexCount polygon plane =
           length (points polygon) + crossingEdges polygon plane"
proof -
  have long: "3 \<le> length (fst (splitLists polygon plane))"
    "3 \<le> length (snd (splitLists polygon plane))"
    using spanning_lists_long [OF assms] by simp_all
  have returned: "fragmentVertices (fst (splitPolygon polygon plane)) =
        length (fst (splitLists polygon plane))"
    "fragmentVertices (snd (splitPolygon polygon plane)) =
        length (snd (splitLists polygon plane))"
    using long by (simp_all add: fragmentVertices_def splitPolygon_fst splitPolygon_snd)
  show ?thesis
    using both_sides_count [OF assms(2)] splitLists_length [of polygon plane]
    by (simp add: combinedVertexCount_def returned sharedVertices_def)
qed

text \<open>
  C3, as the code has it. For every polygon and partition, each fragment that
  \<open>splitPolygon\<close> returns has at least three vertices (a side with fewer is absent). For
  every polygon classified SPANNING whose vertices all have a signed distance that is not
  \<open>NaN\<close>, the two returned fragments have together, a vertex that is in both counted
  once, the original number of vertices plus the number of crossing edges.
\<close>

theorem splitPolygon_vertex_count:
  "(\<forall>part. fst (splitPolygon polygon plane) = Some part
        \<or> snd (splitPolygon polygon plane) = Some part \<longrightarrow> 3 \<le> length (points part))
   \<and> (classifyPolygon polygon plane = SPANNING
        \<and> (\<forall>pt\<in>set (points polygon). pointToPlaneDistance pt plane \<noteq> NaN) \<longrightarrow>
        combinedVertexCount polygon plane =
          length (points polygon) + crossingEdges polygon plane)"
  using fragment_at_least_three [of polygon plane]
    combinedVertexCount_spanning [of polygon plane]
  by blast

lemma splitLists_cutSquare:
  "splitLists cutSquare (horizontalPlane 0) =
     ([mkPoint 10 0, mkPoint 10 5, mkPoint 0 5, mkPoint 0 0],
      [mkPoint 0 (- 5), mkPoint 10 (- 5), mkPoint 10 0, mkPoint 0 0])"
  by (simp add: splitLists_def splitStep_def edgeCrosses_def pointToPlaneDistance_def
      cutSquare_def mkPoint_def horizontalPlane_def number_arith Let_def upt_rec)

lemma splitPolygon_cutSquare:
  "splitPolygon cutSquare (horizontalPlane 0) = (Some cutSquareFront, Some cutSquareBack)"
  by (simp add: splitPolygon_def splitLists_cutSquare cutSquareFront_def cutSquareBack_def)

lemma classify_cutSquare: "classifyPolygon cutSquare (horizontalPlane 0) = SPANNING"
  by (simp add: classify_defs cutSquare_def mkPoint_def horizontalPlane_def number_arith Let_def)

lemma crossingEdges_cutSquare: "crossingEdges cutSquare (horizontalPlane 0) = 2"
  by (simp add: crossingEdges_def edgeCrosses_def pointToPlaneDistance_def
      cutSquare_def mkPoint_def horizontalPlane_def number_arith Let_def upt_rec)

text \<open>
  The square that the line \<open>y = 0\<close> cuts in two: its fragments have four vertices each,
  the two cut points are in both, and \<open>6 = 4 + 2\<close>.
\<close>

theorem splitPolygon_vertex_count_witness:
  "splitPolygon cutSquare (horizontalPlane 0) = (Some cutSquareFront, Some cutSquareBack)
   \<and> 3 \<le> length (points cutSquareFront) \<and> 3 \<le> length (points cutSquareBack)
   \<and> combinedVertexCount cutSquare (horizontalPlane 0) = 6
   \<and> length (points cutSquare) + crossingEdges cutSquare (horizontalPlane 0) = 6"
proof -
  have nonan: "\<forall>pt\<in>set (points cutSquare). pointToPlaneDistance pt (horizontalPlane 0) \<noteq> NaN"
    by (simp add: pointToPlaneDistance_def cutSquare_def mkPoint_def horizontalPlane_def
        number_arith)
  have len: "length (points cutSquare) = 4"
    by (simp add: cutSquare_def)
  show ?thesis
    using splitPolygon_vertex_count [of cutSquare "horizontalPlane 0"]
      classify_cutSquare nonan
    by (simp add: len crossingEdges_cutSquare splitPolygon_cutSquare)
qed

lemma splitLists_nanQuad:
  "splitLists nanQuad (horizontalPlane 0) =
     ([mkPoint 0 5, mkPoint 5 0, mkPoint 15 0, mkPoint 20 5],
      [mkPoint 5 0, mkPoint 10 (- 5), mkPoint 15 0])"
  by (simp add: splitLists_def splitStep_def edgeCrosses_def pointToPlaneDistance_def
      nanQuad_def mkPoint_def horizontalPlane_def number_arith Let_def upt_rec)

lemma splitPolygon_nanQuad:
  "splitPolygon nanQuad (horizontalPlane 0) = (Some nanQuadFront, Some nanQuadBack)"
  by (simp add: splitPolygon_def splitLists_nanQuad nanQuadFront_def nanQuadBack_def)

lemma classify_nanQuad: "classifyPolygon nanQuad (horizontalPlane 0) = SPANNING"
  by (simp add: classify_defs nanQuad_def mkPoint_def horizontalPlane_def number_arith Let_def)

lemma crossingEdges_nanQuad: "crossingEdges nanQuad (horizontalPlane 0) = 2"
  by (simp add: crossingEdges_def edgeCrosses_def pointToPlaneDistance_def
      nanQuad_def mkPoint_def horizontalPlane_def number_arith Let_def upt_rec)

lemma sharedVertices_nanQuad: "sharedVertices nanQuad (horizontalPlane 0) = 2"
  by (simp add: sharedVertices_def crossingEdges_nanQuad)
    (simp add: pointToPlaneDistance_def nanQuad_def mkPoint_def horizontalPlane_def
      number_arith Let_def)

text \<open>
  C3, as it is stated, fails on a quadrilateral with a vertex whose signed distance is
  \<open>NaN\<close>: that vertex fails both tests and is in neither fragment. Two edges cross; the
  fragments have four and three vertices, two of them in both, so together five
  vertices (seven if those two are counted twice), not \<open>4 + 2\<close>.
\<close>

theorem splitPolygon_count_counterexample:
  "classifyPolygon nanQuad (horizontalPlane 0) = SPANNING
   \<and> splitPolygon nanQuad (horizontalPlane 0) = (Some nanQuadFront, Some nanQuadBack)
   \<and> sharedVertices nanQuad (horizontalPlane 0) = 2
   \<and> combinedVertexCount nanQuad (horizontalPlane 0) = 5
   \<and> length (points nanQuadFront) + length (points nanQuadBack) = 7
   \<and> length (points nanQuad) + crossingEdges nanQuad (horizontalPlane 0) = 6"
  by (simp add: classify_nanQuad splitPolygon_nanQuad crossingEdges_nanQuad
      sharedVertices_nanQuad combinedVertexCount_def fragmentVertices_def)
    (simp add: nanQuad_def nanQuadFront_def nanQuadBack_def)

section \<open>Insertion\<close>

text \<open>A rule for results of \<open>insertHelper\<close>: one case for each way the body returns.\<close>

lemma classification_else:
  "c \<noteq> COPLANAR \<Longrightarrow> c \<noteq> FRONT \<Longrightarrow> c \<noteq> BACK \<Longrightarrow> c = SPANNING"
  by (cases c) simp_all

lemma insertHelper_cases [consumes 1, case_names Coplanar FrontErr FrontLeaf FrontChild
    BackErr BackLeaf BackChild Spanning]:
  assumes result: "insertHelper node polygon = Some r"
    and coplanar: "\<And>node polygon.
      classifyPolygon polygon (partition_of node) = COPLANAR \<Longrightarrow>
      P node polygon
        (BSPNode (partition_of node) (front_of node) (back_of node)
           (polygons_of node @ [polygon]), None)"
    and front_err: "\<And>node polygon e.
      classifyPolygon polygon (partition_of node) = FRONT \<Longrightarrow> front_of node = None \<Longrightarrow>
      newLeaf polygon = Inl e \<Longrightarrow> P node polygon (node, Some e)"
    and front_leaf: "\<And>node polygon leaf.
      classifyPolygon polygon (partition_of node) = FRONT \<Longrightarrow> front_of node = None \<Longrightarrow>
      newLeaf polygon = Inr leaf \<Longrightarrow>
      P node polygon
        (BSPNode (partition_of node) (Some leaf) (back_of node) (polygons_of node), None)"
    and front_child: "\<And>node polygon child r.
      classifyPolygon polygon (partition_of node) = FRONT \<Longrightarrow> front_of node = Some child \<Longrightarrow>
      P child polygon r \<Longrightarrow>
      P node polygon
        (BSPNode (partition_of node) (Some (fst r)) (back_of node) (polygons_of node), snd r)"
    and back_err: "\<And>node polygon e.
      classifyPolygon polygon (partition_of node) = BACK \<Longrightarrow> back_of node = None \<Longrightarrow>
      newLeaf polygon = Inl e \<Longrightarrow> P node polygon (node, Some e)"
    and back_leaf: "\<And>node polygon leaf.
      classifyPolygon polygon (partition_of node) = BACK \<Longrightarrow> back_of node = None \<Longrightarrow>
      newLeaf polygon = Inr leaf \<Longrightarrow>
      P node polygon
        (BSPNode (partition_of node) (front_of node) (Some leaf) (polygons_of node), None)"
    and back_child: "\<And>node polygon child r.
      classifyPolygon polygon (partition_of node) = BACK \<Longrightarrow> back_of node = Some child \<Longrightarrow>
      P child polygon r \<Longrightarrow>
      P node polygon
        (BSPNode (partition_of node) (front_of node) (Some (fst r)) (polygons_of node), snd r)"
    and spanning: "\<And>node polygon r1 r.
      classifyPolygon polygon (partition_of node) = SPANNING \<Longrightarrow>
      (case fst (splitPolygon polygon (partition_of node)) of
         None \<Rightarrow> r1 = (node, None)
       | Some frontPart \<Rightarrow> P node frontPart r1) \<Longrightarrow>
      (if snd r1 \<noteq> None then r = r1
       else case snd (splitPolygon polygon (partition_of node)) of
              None \<Rightarrow> r = r1
            | Some backPart \<Rightarrow> P (fst r1) backPart r) \<Longrightarrow>
      P node polygon r"
  shows "P node polygon r"
proof (rule insertHelper.raw_induct [where P = P, OF _ result])
  fix ih node polygon r
  assume IH: "\<And>node polygon r. ih node polygon = Some r \<Longrightarrow> P node polygon r"
  assume eq: "(let classification = classifyPolygon polygon (partition_of node) in
      if classification = COPLANAR then
        Some (BSPNode (partition_of node) (front_of node) (back_of node) (polygons_of node @ [polygon]),
              None)
      else if classification = FRONT then
        (case front_of node of
           None \<Rightarrow>
             (case newLeaf polygon of
                Inl e \<Rightarrow> Some (node, Some e)
              | Inr leaf \<Rightarrow>
                  Some (BSPNode (partition_of node) (Some leaf) (back_of node) (polygons_of node),
                        None))
         | Some child \<Rightarrow>
             Option.bind (ih child polygon) (\<lambda>r.
               Some (BSPNode (partition_of node) (Some (fst r)) (back_of node) (polygons_of node),
                     snd r)))
      else if classification = BACK then
        (case back_of node of
           None \<Rightarrow>
             (case newLeaf polygon of
                Inl e \<Rightarrow> Some (node, Some e)
              | Inr leaf \<Rightarrow>
                  Some (BSPNode (partition_of node) (front_of node) (Some leaf) (polygons_of node),
                        None))
         | Some child \<Rightarrow>
             Option.bind (ih child polygon) (\<lambda>r.
               Some (BSPNode (partition_of node) (front_of node) (Some (fst r)) (polygons_of node),
                     snd r)))
      else
        Option.bind
          (case fst (splitPolygon polygon (partition_of node)) of
             None \<Rightarrow> Some (node, None)
           | Some frontPart \<Rightarrow> ih node frontPart)
          (\<lambda>r. if snd r \<noteq> None then Some r
                else (case snd (splitPolygon polygon (partition_of node)) of
                        None \<Rightarrow> Some r
                      | Some backPart \<Rightarrow> ih (fst r) backPart))) = Some r"
  let ?c = "classifyPolygon polygon (partition_of node)"
  consider (C) "?c = COPLANAR" | (F) "?c = FRONT" | (B) "?c = BACK" | (S) "?c = SPANNING"
    by (cases ?c) simp_all
  then show "P node polygon r"
  proof cases
    case C
    with eq coplanar [of polygon node] show ?thesis by auto
  next
    case F
    show ?thesis
    proof (cases "front_of node")
      case None
      with F eq front_err [of polygon node] front_leaf [of polygon node]
      show ?thesis by (auto split: sum.splits)
    next
      case (Some child)
      with F eq obtain r' where "ih child polygon = Some r'"
        and "r = (BSPNode (partition_of node) (Some (fst r')) (back_of node) (polygons_of node),
                  snd r')"
        by (auto simp add: bind_eq_Some_conv)
      with F Some IH front_child [of polygon node child r'] show ?thesis by simp
    qed
  next
    case B
    show ?thesis
    proof (cases "back_of node")
      case None
      with B eq back_err [of polygon node] back_leaf [of polygon node]
      show ?thesis by (auto split: sum.splits)
    next
      case (Some child)
      with B eq obtain r' where "ih child polygon = Some r'"
        and "r = (BSPNode (partition_of node) (front_of node) (Some (fst r')) (polygons_of node),
                  snd r')"
        by (auto simp add: bind_eq_Some_conv)
      with B Some IH back_child [of polygon node child r'] show ?thesis by simp
    qed
  next
    case S
    with eq obtain r1 where
      first: "(case fst (splitPolygon polygon (partition_of node)) of
                None \<Rightarrow> Some (node, None)
              | Some frontPart \<Rightarrow> ih node frontPart) = Some r1"
      and second: "(if snd r1 \<noteq> None then Some r1
                    else case snd (splitPolygon polygon (partition_of node)) of
                           None \<Rightarrow> Some r1
                         | Some backPart \<Rightarrow> ih (fst r1) backPart) = Some r"
      by (auto simp add: bind_eq_Some_conv)
    have a: "case fst (splitPolygon polygon (partition_of node)) of
         None \<Rightarrow> r1 = (node, None)
       | Some frontPart \<Rightarrow> P node frontPart r1"
      using first IH by (auto split: option.splits)
    have b: "if snd r1 \<noteq> None then r = r1
       else case snd (splitPolygon polygon (partition_of node)) of
              None \<Rightarrow> r = r1
            | Some backPart \<Rightarrow> P (fst r1) backPart r"
      using second IH by (auto split: option.splits if_splits)
    show ?thesis by (rule spanning [OF S a b])
  qed
qed


section \<open>What an insertion does to the tree\<close>

lemma error_is_TypeError: "e = TypeError"
  by (cases e) simp

lemma createPartition_error: "createPartition polygon = Inl e \<longleftrightarrow> length (points polygon) < 2"
  using error_is_TypeError [of e]
  by (cases "points polygon"; cases "tl (points polygon)")
    (auto simp add: createPartition_def Let_def split: list.splits)

lemma newLeaf_Inl: "newLeaf polygon = Inl e \<Longrightarrow> length (points polygon) < 2"
  using createPartition_error [of polygon e]
  by (auto simp add: newLeaf_def split: sum.splits)

lemma newLeaf_Inr:
  assumes "newLeaf polygon = Inr leaf"
  shows "polygons_of leaf = [polygon] \<and> front_of leaf = None \<and> back_of leaf = None
         \<and> createPartition polygon = Inr (partition_of leaf) \<and> 2 \<le> length (points polygon)"
proof -
  from assms obtain plane where plane: "createPartition polygon = Inr plane"
    and leaf: "leaf = BSPNode plane None None [polygon]"
    by (auto simp add: newLeaf_def split: sum.splits)
  have "\<not> length (points polygon) < 2"
    using createPartition_error [of polygon TypeError] plane by auto
  with plane leaf show ?thesis by simp
qed

lemma newLeaf_short: "length (points polygon) < 2 \<Longrightarrow> newLeaf polygon = Inl TypeError"
  using createPartition_error [of polygon TypeError] by (simp add: newLeaf_def)

lemma newLeaf_long: "2 \<le> length (points polygon) \<Longrightarrow> \<exists>leaf. newLeaf polygon = Inr leaf"
proof (cases "createPartition polygon")
  case (Inl e)
  assume "2 \<le> length (points polygon)"
  with Inl createPartition_error [of polygon e] show ?thesis by simp
next
  case (Inr plane)
  then show ?thesis by (simp add: newLeaf_def)
qed

lemma insertHelper_error:
  assumes "insertHelper node polygon = Some r"
  shows "snd r \<noteq> None \<longrightarrow> fst r = node \<and> length (points polygon) < 2"
  using assms
proof (induction rule: insertHelper_cases)
  case (Coplanar node polygon)
  show ?case by simp
next
  case (FrontErr node polygon e)
  then show ?case by (simp add: newLeaf_Inl)
next
  case (FrontLeaf node polygon leaf)
  show ?case by simp
next
  case (FrontChild node polygon child r)
  then show ?case by (cases node) auto
next
  case (BackErr node polygon e)
  then show ?case by (simp add: newLeaf_Inl)
next
  case (BackLeaf node polygon leaf)
  show ?case by simp
next
  case (BackChild node polygon child r)
  then show ?case by (cases node) auto
next
  case (Spanning node polygon r1 r)
  have r1: "snd r1 = None"
    using Spanning(2) splitPolygon_front_part [of polygon "partition_of node"]
    by (auto split: option.splits)
  have "snd r = None"
    using Spanning(3) r1 splitPolygon_back_part [of polygon "partition_of node"]
    by (auto split: option.splits)
  then show ?case by simp
qed

lemma nonEmptyNodes_Some:
  "nonEmptyNodes (Some node) \<longleftrightarrow>
     polygons_of node \<noteq> [] \<and> nonEmptyNodes (front_of node) \<and> nonEmptyNodes (back_of node)"
  by (cases node) simp

lemma insertHelper_nonEmpty:
  assumes "insertHelper node polygon = Some r"
  shows "nonEmptyNodes (Some node) \<longrightarrow> nonEmptyNodes (Some (fst r))"
  using assms
proof (induction rule: insertHelper_cases)
  case (FrontLeaf node polygon leaf)
  then show ?case using newLeaf_Inr [of polygon leaf] by (simp add: nonEmptyNodes_Some)
next
  case (BackLeaf node polygon leaf)
  then show ?case using newLeaf_Inr [of polygon leaf] by (simp add: nonEmptyNodes_Some)
next
  case (Spanning node polygon r1 r)
  then show ?case by (auto split: option.splits if_splits)
qed (simp_all add: nonEmptyNodes_Some)

lemma grows_Some:
  "grows (Some node) (Some node') \<longleftrightarrow>
     partition_of node' = partition_of node \<and> prefix (polygons_of node) (polygons_of node')
     \<and> grows (front_of node) (front_of node') \<and> grows (back_of node) (back_of node')"
  by (cases node; cases node') simp

lemma grows_refl: "grows t t"
  by (induction t rule: allNodes.induct) simp_all

lemma grows_trans: "grows t1 t2 \<Longrightarrow> grows t2 t3 \<Longrightarrow> grows t1 t3"
proof (induction t1 t2 arbitrary: t3 rule: grows.induct)
  case (1 new)
  show ?case by simp
next
  case (2 plane fr bk polys)
  then show ?case by simp
next
  case (3 plane fr bk polys plane' fr' bk' polys')
  from "3.prems"(2) obtain node3 where t3: "t3 = Some node3"
    by (cases t3) simp_all
  obtain plane3 fr3 bk3 polys3 where node3: "node3 = BSPNode plane3 fr3 bk3 polys3"
    by (cases node3)
  from "3.prems" have "grows fr fr3" "grows bk bk3" "prefix polys polys3" "plane3 = plane"
    using "3.IH"(1) [of fr3] "3.IH"(2) [of bk3] unfolding t3 node3 by auto
  then show ?case by (simp add: t3 node3)
qed

lemma insertHelper_grows:
  assumes "insertHelper node polygon = Some r"
  shows "grows (Some node) (Some (fst r))"
  using assms
proof (induction rule: insertHelper_cases)
  case (Spanning node polygon r1 r)
  have first: "grows (Some node) (Some (fst r1))"
    using Spanning(2) by (auto simp add: grows_refl split: option.splits)
  have second: "grows (Some (fst r1)) (Some (fst r))"
    using Spanning(3) by (auto simp add: grows_refl split: option.splits if_splits)
  show ?case by (rule grows_trans [OF first second])
qed (simp_all add: grows_Some grows_refl)

lemma insert_poly_error:
  assumes "insert_poly tree polygon = Some (tree', Some e)"
  shows "tree' = tree \<and> length (points polygon) < 2"
proof (cases "root_node tree")
  case None
  with assms show ?thesis
    by (auto simp add: insert_poly_def newLeaf_Inl split: sum.splits)
next
  case (Some node)
  with assms obtain r where r: "insertHelper node polygon = Some r"
    and tree': "tree' = tree\<lparr>root_node := Some (fst r)\<rparr>" and e: "snd r = Some e"
    by (auto simp add: insert_poly_def bind_eq_Some_conv)
  from insertHelper_error [OF r] e have "fst r = node" "length (points polygon) < 2"
    by simp_all
  with tree' Some show ?thesis by simp
qed

lemma insert_poly_empty_short:
  assumes "root_node tree = None" and "length (points polygon) < 2"
  shows "insert_poly tree polygon = Some (tree, Some TypeError)"
  using assms by (simp add: insert_poly_def newLeaf_short)

lemma insert_poly_empty_long:
  assumes "root_node tree = None" and "2 \<le> length (points polygon)"
  shows "\<exists>leaf. insert_poly tree polygon = Some (tree\<lparr>root_node := Some leaf\<rparr>, None)
           \<and> isNewLeaf leaf \<and> polygons_of leaf = [polygon]"
proof -
  from newLeaf_long [OF assms(2)] obtain leaf where leaf: "newLeaf polygon = Inr leaf" ..
  with assms(1) newLeaf_Inr [OF leaf] show ?thesis
    by (auto simp add: insert_poly_def isNewLeaf_def)
qed

lemma insert_poly_nonEmpty:
  assumes "insert_poly tree polygon = Some (tree', e)" and "nonEmptyNodes (root_node tree)"
  shows "nonEmptyNodes (root_node tree')"
proof (cases "root_node tree")
  case None
  with assms(1) show ?thesis
    using newLeaf_Inr [of polygon]
    by (auto simp add: insert_poly_def nonEmptyNodes_Some split: sum.splits)
next
  case (Some node)
  with assms(1) obtain r where r: "insertHelper node polygon = Some r"
    and tree': "tree' = tree\<lparr>root_node := Some (fst r)\<rparr>"
    by (auto simp add: insert_poly_def bind_eq_Some_conv)
  from insertHelper_nonEmpty [OF r] assms(2) Some tree' show ?thesis by simp
qed

lemma insertAll_nonEmpty:
  assumes "insertAll tree polys = Some (tree', e)" and "nonEmptyNodes (root_node tree)"
  shows "nonEmptyNodes (root_node tree')"
  using assms
proof (induction polys arbitrary: tree)
  case Nil
  then show ?case by simp
next
  case (Cons polygon rest)
  from Cons.prems(1) obtain r where r: "insert_poly tree polygon = Some r"
    and rest: "(if snd r \<noteq> None then Some r else insertAll (fst r) rest) = Some (tree', e)"
    by (auto simp add: bind_eq_Some_conv)
  have mid: "nonEmptyNodes (root_node (fst r))"
    using insert_poly_nonEmpty [of tree polygon "fst r" "snd r"] r Cons.prems(2) by simp
  show ?case
  proof (cases "snd r \<noteq> None")
    case True
    with rest mid show ?thesis by auto
  next
    case False
    with rest have "insertAll (fst r) rest = Some (tree', e)" by simp
    from Cons.IH [OF this mid] show ?thesis .
  qed
qed

lemma insert_poly_grows:
  assumes "insert_poly tree polygon = Some (tree', e)"
  shows "grows (root_node tree) (root_node tree')"
proof (cases "root_node tree")
  case None
  then show ?thesis by simp
next
  case (Some node)
  with assms obtain r where r: "insertHelper node polygon = Some r"
    and tree': "tree' = tree\<lparr>root_node := Some (fst r)\<rparr>"
    by (auto simp add: insert_poly_def bind_eq_Some_conv)
  from insertHelper_grows [OF r] Some tree' show ?thesis by simp
qed

lemma insert_poly_empty_root:
  assumes "insert_poly tree polygon = Some (tree', e)" and "root_node tree = None"
  shows "root_node tree' = None \<or>
         (\<exists>leaf. root_node tree' = Some leaf \<and> isNewLeaf leaf \<and> polygons_of leaf = [polygon])"
  using assms newLeaf_Inr [of polygon]
  by (auto simp add: insert_poly_def isNewLeaf_def split: sum.splits)

lemma createPartition_degenerate:
  assumes "points polygon = p1 # p1 # rest"
  shows "createPartition polygon = Inr \<lparr>point = p1, normal = \<lparr>pt_x = NaN, pt_y = NaN\<rparr>\<rparr>"
  using assms
  by (cases "pt_x p1"; cases "pt_y p1")
    (simp_all add: createPartition_def number_ops rnd_zero Let_def)


lemma createPartition_twoGon: "createPartition twoGon = Inr (horizontalPlane 0)"
  by (simp add: createPartition_def twoGon_def mkPoint_def horizontalPlane_def number_arith
      sqrt_100 Let_def)

text \<open>
  C4, as the code has it. \<open>insert\<close> never fails on a zero-length leading edge: an insert
  of a polygon with at least two vertices that returns has raised nothing, whatever the
  edge; \<open>createPartition\<close> has no guard, and for a polygon whose first two vertices coincide
  it returns the partition whose normal is \<open>(NaN, NaN)\<close>, which \<open>insert\<close> stores as the
  root of an empty tree.
\<close>

theorem insert_never_degenerate_edge:
  "(2 \<le> length (points polygon) \<and> insert_poly tree polygon = Some (tree', e) \<longrightarrow> e = None)
   \<and> (points polygon = p1 # p1 # rest \<longrightarrow>
        createPartition polygon = Inr \<lparr>point = p1, normal = \<lparr>pt_x = NaN, pt_y = NaN\<rparr>\<rparr>)
   \<and> (points polygon = p1 # p1 # rest \<and> root_node tree = None \<longrightarrow>
        insert_poly tree polygon =
          Some (tree\<lparr>root_node := Some (BSPNode
                  \<lparr>point = p1, normal = \<lparr>pt_x = NaN, pt_y = NaN\<rparr>\<rparr> None None [polygon])\<rparr>,
                None))"
proof (intro conjI impI)
  assume "2 \<le> length (points polygon) \<and> insert_poly tree polygon = Some (tree', e)"
  then show "e = None"
    using insert_poly_error [of tree polygon tree'] by (cases e) auto
next
  assume "points polygon = p1 # p1 # rest"
  then show "createPartition polygon = Inr \<lparr>point = p1, normal = \<lparr>pt_x = NaN, pt_y = NaN\<rparr>\<rparr>"
    by (rule createPartition_degenerate)
next
  assume "points polygon = p1 # p1 # rest \<and> root_node tree = None"
  then show "insert_poly tree polygon =
          Some (tree\<lparr>root_node := Some (BSPNode
                  \<lparr>point = p1, normal = \<lparr>pt_x = NaN, pt_y = NaN\<rparr>\<rparr> None None [polygon])\<rparr>,
                None)"
    using createPartition_degenerate [of polygon p1 rest]
    by (simp add: insert_poly_def newLeaf_def)
qed

text \<open>
  The triangle whose first two vertices are both \<open>(0,0)\<close>, inserted into the empty tree.
\<close>

theorem insert_never_degenerate_edge_witness:
  "insert_poly emptyTree degenerateTriangle =
     Some (emptyTree\<lparr>root_node := Some (BSPNode
             \<lparr>point = mkPoint 0 0, normal = \<lparr>pt_x = NaN, pt_y = NaN\<rparr>\<rparr> None None
             [degenerateTriangle])\<rparr>, None)
   \<and> createPartition degenerateTriangle =
       Inr \<lparr>point = mkPoint 0 0, normal = \<lparr>pt_x = NaN, pt_y = NaN\<rparr>\<rparr>"
proof -
  have pts: "points degenerateTriangle = mkPoint 0 0 # mkPoint 0 0 # [mkPoint 10 10]"
    by (simp add: degenerateTriangle_def)
  have root: "root_node emptyTree = None"
    by (simp add: emptyTree_def)
  show ?thesis
    using insert_never_degenerate_edge
      [of degenerateTriangle emptyTree emptyTree None "mkPoint 0 0" "[mkPoint 10 10]"]
      pts root
    by simp
qed

text \<open>
  C4, as it is stated, fails on that triangle: its leading edge has zero length, and the
  insert raises nothing and stores a \<open>NaN\<close> normal.
\<close>

theorem degenerate_edge_counterexample:
  "points degenerateTriangle ! 0 = points degenerateTriangle ! 1
   \<and> insert_poly emptyTree degenerateTriangle =
       Some (\<lparr>root_node = Some (BSPNode
               \<lparr>point = mkPoint 0 0, normal = \<lparr>pt_x = NaN, pt_y = NaN\<rparr>\<rparr> None None
               [degenerateTriangle])\<rparr>, None)"
  by (simp add: insert_poly_def emptyTree_def newLeaf_def createPartition_def
      degenerateTriangle_def mkPoint_def number_arith Let_def)

lemma classify_twoGon: "classifyPolygon twoGon (horizontalPlane 0) = COPLANAR"
  by (simp add: classify_defs twoGon_def mkPoint_def horizontalPlane_def number_arith Let_def)

lemma insert_twoGon_coplanar:
  "insert_poly \<lparr>root_node = Some (BSPNode (horizontalPlane 0) None None [squareA])\<rparr> twoGon =
     Some (\<lparr>root_node = Some (BSPNode (horizontalPlane 0) None None [squareA, twoGon])\<rparr>, None)"
  by (simp add: insert_poly_def
      insertHelper.simps [of "BSPNode (horizontalPlane 0) None None [squareA]"]
      classify_twoGon)

text \<open>
  C5, as the code has it. \<open>insert\<close> does not look at the number of vertices and takes a
  polygon of two vertices as it takes any other: an insert of it that returns has raised
  nothing, and the empty tree takes it as its root, a new leaf that holds it.
\<close>

theorem insert_accepts_two_vertices:
  "(length (points polygon) = 2 \<and> insert_poly tree polygon = Some (tree', e) \<longrightarrow> e = None)
   \<and> (length (points polygon) = 2 \<and> root_node tree = None \<longrightarrow>
        (\<exists>leaf. insert_poly tree polygon = Some (tree\<lparr>root_node := Some leaf\<rparr>, None)
           \<and> isNewLeaf leaf \<and> polygons_of leaf = [polygon]))"
proof (intro conjI impI)
  assume "length (points polygon) = 2 \<and> insert_poly tree polygon = Some (tree', e)"
  then show "e = None"
    using insert_poly_error [of tree polygon tree'] by (cases e) auto
next
  assume "length (points polygon) = 2 \<and> root_node tree = None"
  then show "\<exists>leaf. insert_poly tree polygon = Some (tree\<lparr>root_node := Some leaf\<rparr>, None)
           \<and> isNewLeaf leaf \<and> polygons_of leaf = [polygon]"
    using insert_poly_empty_long [of tree polygon] by simp
qed

text \<open>
  The polygon of two vertices, inserted into the tree that holds square A, where it is
  coplanar with the root, and into the empty tree.
\<close>

theorem insert_accepts_two_vertices_witness:
  "insert_poly \<lparr>root_node = Some (BSPNode (horizontalPlane 0) None None [squareA])\<rparr> twoGon =
     Some (\<lparr>root_node = Some (BSPNode (horizontalPlane 0) None None [squareA, twoGon])\<rparr>, None)
   \<and> (\<exists>leaf. insert_poly emptyTree twoGon = Some (emptyTree\<lparr>root_node := Some leaf\<rparr>, None)
         \<and> isNewLeaf leaf \<and> polygons_of leaf = [twoGon])"
proof -
  have two: "length (points twoGon) = 2"
    by (simp add: twoGon_def)
  have root: "root_node emptyTree = None"
    by (simp add: emptyTree_def)
  have first: "snd (the (insert_poly
      \<lparr>root_node = Some (BSPNode (horizontalPlane 0) None None [squareA])\<rparr> twoGon)) = None"
    using insert_accepts_two_vertices
      [of twoGon "\<lparr>root_node = Some (BSPNode (horizontalPlane 0) None None [squareA])\<rparr>"
        "\<lparr>root_node = Some (BSPNode (horizontalPlane 0) None None [squareA, twoGon])\<rparr>" None]
      two insert_twoGon_coplanar
    by simp
  have second: "\<exists>leaf. insert_poly emptyTree twoGon =
        Some (emptyTree\<lparr>root_node := Some leaf\<rparr>, None)
      \<and> isNewLeaf leaf \<and> polygons_of leaf = [twoGon]"
    using insert_accepts_two_vertices [of twoGon emptyTree] two root by simp
  show ?thesis using first second insert_twoGon_coplanar by simp
qed

text \<open>
  C5, as it is stated, fails on a polygon of two vertices: the empty tree takes it as its
  root and raises nothing.
\<close>

theorem invalid_polygon_counterexample:
  "length (points twoGon) < 3
   \<and> insert_poly emptyTree twoGon =
       Some (\<lparr>root_node = Some (BSPNode (horizontalPlane 0) None None [twoGon])\<rparr>, None)"
  by (simp add: insert_poly_def emptyTree_def newLeaf_def createPartition_twoGon)
    (simp add: twoGon_def)

text \<open>
  C9. An insert that returns keeps the invariant that every node holds at least one
  polygon, and leaves every collection it found a prefix of what it is afterwards; a tree
  built from the empty tree by inserts alone has the invariant; a new node is created
  with exactly the inserted polygon.
\<close>

theorem insert_keeps_nodes_nonempty:
  "(nonEmptyNodes (root_node tree) \<and> insert_poly tree polygon = Some (tree', e) \<longrightarrow>
      nonEmptyNodes (root_node tree') \<and> grows (root_node tree) (root_node tree'))
   \<and> (insertAll emptyTree polys = Some (built, e') \<longrightarrow> nonEmptyNodes (root_node built))
   \<and> (newLeaf polygon = Inr leaf \<longrightarrow> polygons_of leaf = [polygon])"
proof (intro conjI impI)
  assume h: "nonEmptyNodes (root_node tree) \<and> insert_poly tree polygon = Some (tree', e)"
  then show "nonEmptyNodes (root_node tree')"
    using insert_poly_nonEmpty [of tree polygon tree' e] by simp
  from h show "grows (root_node tree) (root_node tree')"
    using insert_poly_grows [of tree polygon tree' e] by simp
next
  assume "insertAll emptyTree polys = Some (built, e')"
  then show "nonEmptyNodes (root_node built)"
    using insertAll_nonEmpty [of emptyTree polys built e'] by (simp add: emptyTree_def)
next
  assume "newLeaf polygon = Inr leaf"
  then show "polygons_of leaf = [polygon]"
    using newLeaf_Inr [of polygon leaf] by simp
qed

text \<open>
  The three-square scene, and its last insert.
\<close>

theorem insert_keeps_nodes_nonempty_witness:
  "nonEmptyNodes (root_node threeSquareTree)
   \<and> grows (Some (BSPNode (horizontalPlane 0)
        (Some (BSPNode (horizontalPlane 20) None None [squareB])) None [squareA]))
       (root_node threeSquareTree)
   \<and> polygons_of (BSPNode (horizontalPlane (- 30)) None None [squareC]) = [squareC]"
proof -
  let ?tree = "\<lparr>root_node = Some (BSPNode (horizontalPlane 0)
        (Some (BSPNode (horizontalPlane 20) None None [squareB])) None [squareA])\<rparr>"
  have inv: "nonEmptyNodes (root_node ?tree)"
    by simp
  have all: "insertAll emptyTree [squareA, squareB, squareC] = Some (threeSquareTree, None)"
    by (simp add: insert_squareA insert_squareB insert_squareC)
  have leaf: "newLeaf squareC = Inr (BSPNode (horizontalPlane (- 30)) None None [squareC])"
    by (simp add: newLeaf_def createPartition_squareC)
  show ?thesis
    using insert_keeps_nodes_nonempty
      [where tree = ?tree and polygon = squareC and tree' = threeSquareTree and e = None
        and polys = "[squareA, squareB, squareC]" and built = threeSquareTree and e' = None
        and leaf = "BSPNode (horizontalPlane (- 30)) None None [squareC]"]
      inv all leaf insert_squareC
    by simp
qed

text \<open>
  C10. An insert that returns leaves every node it found at its place with its partition,
  its child links still there, and its collection a prefix of the new one; what is new are
  appended polygons and nodes in slots that were empty. An empty root stays empty or
  becomes a new leaf holding the inserted polygon.
\<close>

theorem insert_frame:
  assumes "insert_poly tree polygon = Some (tree', e)"
  shows "grows (root_node tree) (root_node tree')
     \<and> (root_node tree = None \<longrightarrow>
          root_node tree' = None \<or>
          (\<exists>leaf. root_node tree' = Some leaf \<and> isNewLeaf leaf \<and> polygons_of leaf = [polygon]))"
  using insert_poly_grows [OF assms] insert_poly_empty_root [OF assms] by blast

text \<open>
  The first and the last insert of the three-square scene.
\<close>

theorem insert_frame_witness:
  "grows (Some (BSPNode (horizontalPlane 0)
        (Some (BSPNode (horizontalPlane 20) None None [squareB])) None [squareA]))
     (root_node threeSquareTree)
   \<and> grows None (Some (BSPNode (horizontalPlane 0) None None [squareA]))
   \<and> isNewLeaf (BSPNode (horizontalPlane 0) None None [squareA])"
proof -
  have first: "grows None (Some (BSPNode (horizontalPlane 0) None None [squareA]))
     \<and> isNewLeaf (BSPNode (horizontalPlane 0) None None [squareA])"
    using insert_frame [OF insert_squareA] by (simp add: emptyTree_def)
  have third: "grows (Some (BSPNode (horizontalPlane 0)
        (Some (BSPNode (horizontalPlane 20) None None [squareB])) None [squareA]))
     (root_node threeSquareTree)"
    using insert_frame [OF insert_squareC] by simp
  show ?thesis using first third by simp
qed

section \<open>When an insert returns\<close>

text \<open>
  An insert returns when every polygon it handles is separated by every partition of the
  tree that it spans: the fragments then go down on their own sides, and the descent ends
  at a leaf. Nothing else bounds the recursion.
\<close>

lemma planes_Some:
  "planes (Some node) = insert (partition_of node) (planes (front_of node) \<union> planes (back_of node))"
  by (cases node) simp

lemma insertHelper_front_step:
  assumes "classifyPolygon q (partition_of node) = FRONT"
    and "\<And>child. front_of node = Some child \<Longrightarrow> \<exists>r. insertHelper child q = Some r"
  shows "\<exists>r. insertHelper node q = Some r \<and> partition_of (fst r) = partition_of node
           \<and> back_of (fst r) = back_of node"
proof (cases "front_of node")
  case None
  with assms(1) show ?thesis
    by (subst insertHelper.simps) (auto split: sum.splits)
next
  case (Some child)
  from assms(2) [OF Some] obtain r where "insertHelper child q = Some r" ..
  with assms(1) Some show ?thesis
    by (subst insertHelper.simps) auto
qed

lemma insertHelper_back_step:
  assumes "classifyPolygon q (partition_of node) = BACK"
    and "\<And>child. back_of node = Some child \<Longrightarrow> \<exists>r. insertHelper child q = Some r"
  shows "\<exists>r. insertHelper node q = Some r"
proof (cases "back_of node")
  case None
  with assms(1) show ?thesis
    by (subst insertHelper.simps) (auto split: sum.splits)
next
  case (Some child)
  from assms(2) [OF Some] obtain r where "insertHelper child q = Some r" ..
  with assms(1) Some show ?thesis
    by (subst insertHelper.simps) auto
qed

lemma insertHelper_returns:
  assumes clean: "\<forall>q\<in>pieces P polygon. \<forall>plane\<in>P.
      classifyPolygon q plane = SPANNING \<longrightarrow> separates plane q"
  shows "planes t \<subseteq> P \<Longrightarrow> q \<in> pieces P polygon \<Longrightarrow> t = Some node \<Longrightarrow>
         \<exists>r. insertHelper node q = Some r"
proof (induction t arbitrary: q node rule: allNodes.induct)
  case 1
  then show ?case by simp
next
  case (2 plane fr bk polys)
  from "2.prems"(3) have node: "node = BSPNode plane fr bk polys" by simp
  have plane: "plane \<in> P" and fr: "planes fr \<subseteq> P" and bk: "planes bk \<subseteq> P"
    using "2.prems"(1) by auto
  have front_ih: "\<exists>r. insertHelper child p = Some r"
    if "p \<in> pieces P polygon" "front_of node = Some child" for p child
    using "2.IH"(1) [OF fr that(1)] that(2) node by simp
  have back_ih: "\<exists>r. insertHelper child p = Some r"
    if "p \<in> pieces P polygon" "back_of node = Some child" for p child
    using "2.IH"(2) [OF bk that(1)] that(2) node by simp
  let ?c = "classifyPolygon q (partition_of node)"
  consider (C) "?c = COPLANAR" | (F) "?c = FRONT" | (B) "?c = BACK" | (S) "?c = SPANNING"
    by (cases ?c) simp_all
  then show ?case
  proof cases
    case C
    then show ?thesis by (subst insertHelper.simps) simp
  next
    case F
    from insertHelper_front_step [OF F] front_ih [OF "2.prems"(2)] show ?thesis by blast
  next
    case B
    from insertHelper_back_step [OF B] back_ih [OF "2.prems"(2)] show ?thesis by blast
  next
    case S
    have sep: "separates (partition_of node) q"
      using clean "2.prems"(2) plane S node by simp
    have first: "\<exists>r1. (case fst (splitPolygon q (partition_of node)) of
                  None \<Rightarrow> Some (node, None)
                | Some frontPart \<Rightarrow> insertHelper node frontPart) = Some r1
              \<and> partition_of (fst r1) = partition_of node \<and> back_of (fst r1) = back_of node"
    proof (cases "fst (splitPolygon q (partition_of node))")
      case None
      then show ?thesis by simp
    next
      case (Some part)
      have piece: "part \<in> pieces P polygon"
        using pieces.front_piece [OF "2.prems"(2) _ _ Some] plane S node by simp
      have "classifyPolygon part (partition_of node) = FRONT"
        using sep Some by (simp add: separates_def)
      from insertHelper_front_step [OF this] front_ih [OF piece] Some show ?thesis
        by simp
    qed
    then obtain r1 where r1: "(case fst (splitPolygon q (partition_of node)) of
                  None \<Rightarrow> Some (node, None)
                | Some frontPart \<Rightarrow> insertHelper node frontPart) = Some r1"
      and same: "partition_of (fst r1) = partition_of node" "back_of (fst r1) = back_of node"
      by blast
    have second: "\<exists>r. (if snd r1 \<noteq> None then Some r1
                else (case snd (splitPolygon q (partition_of node)) of
                        None \<Rightarrow> Some r1
                      | Some backPart \<Rightarrow> insertHelper (fst r1) backPart)) = Some r"
    proof (cases "snd (splitPolygon q (partition_of node))")
      case None
      then show ?thesis by simp
    next
      case (Some part)
      have piece: "part \<in> pieces P polygon"
        using pieces.back_piece [OF "2.prems"(2) _ _ Some] plane S node by simp
      have "classifyPolygon part (partition_of (fst r1)) = BACK"
        using sep Some same by (simp add: separates_def)
      from insertHelper_back_step [OF this] back_ih [OF piece] same Some show ?thesis
        by simp
    qed
    then obtain r where "(if snd r1 \<noteq> None then Some r1
                else (case snd (splitPolygon q (partition_of node)) of
                        None \<Rightarrow> Some r1
                      | Some backPart \<Rightarrow> insertHelper (fst r1) backPart)) = Some r" ..
    with S r1 show ?thesis
      by (subst insertHelper.simps) (simp add: Let_def)
  qed
qed

lemma insert_poly_returns:
  assumes "\<forall>q\<in>pieces (planes (root_node tree)) polygon. \<forall>plane\<in>planes (root_node tree).
      classifyPolygon q plane = SPANNING \<longrightarrow> separates plane q"
  shows "\<exists>r. insert_poly tree polygon = Some r"
proof (cases "root_node tree")
  case None
  then show ?thesis by (simp add: insert_poly_def split: sum.splits)
next
  case (Some node)
  from insertHelper_returns [OF assms subset_refl pieces.whole Some]
  obtain r where "insertHelper node polygon = Some r" ..
  with Some show ?thesis by (simp add: insert_poly_def)
qed

lemma classify_cutSquareFront: "classifyPolygon cutSquareFront (horizontalPlane 0) = FRONT"
  by (simp add: classify_defs cutSquare_def cutSquareFront_def mkPoint_def horizontalPlane_def
      number_arith Let_def)

lemma classify_cutSquareBack: "classifyPolygon cutSquareBack (horizontalPlane 0) = BACK"
  by (simp add: classify_defs cutSquare_def cutSquareBack_def mkPoint_def horizontalPlane_def
      number_arith Let_def)

lemma pieces_cutSquare:
  "q \<in> pieces {horizontalPlane 0} cutSquare \<Longrightarrow> q \<in> {cutSquare, cutSquareFront, cutSquareBack}"
proof (induction rule: pieces.induct)
  case whole
  show ?case by simp
next
  case (front_piece q plane part)
  then show ?case
    using splitPolygon_cutSquare classify_cutSquareFront classify_cutSquareBack by auto
next
  case (back_piece q plane part)
  then show ?case
    using splitPolygon_cutSquare classify_cutSquareFront classify_cutSquareBack by auto
qed

lemma insert_cutSquare_returns:
  "\<exists>r. insert_poly \<lparr>root_node = Some (BSPNode (horizontalPlane 0) None None [squareA])\<rparr>
     cutSquare = Some r"
proof (rule insert_poly_returns, intro ballI impI)
  fix q plane
  assume q: "q \<in> pieces (planes (root_node
      \<lparr>root_node = Some (BSPNode (horizontalPlane 0) None None [squareA])\<rparr>)) cutSquare"
    and plane: "plane \<in> planes (root_node
      \<lparr>root_node = Some (BSPNode (horizontalPlane 0) None None [squareA])\<rparr>)"
    and spanning: "classifyPolygon q plane = SPANNING"
  from plane have plane0: "plane = horizontalPlane 0" by simp
  from q have "q \<in> pieces {horizontalPlane 0} cutSquare" by simp
  from pieces_cutSquare [OF this] spanning plane0 have "q = cutSquare"
    using classify_cutSquareFront classify_cutSquareBack by auto
  then show "separates plane q"
    using plane0 splitPolygon_cutSquare classify_cutSquareFront classify_cutSquareBack
    by (simp add: separates_def)
qed

section \<open>An insert that does not return\<close>

lemma createPartition_raisedSquare: "createPartition raisedSquare = Inr (horizontalPlane 2)"
  by (simp add: createPartition_def raisedSquare_def mkPoint_def horizontalPlane_def
      number_arith Let_def)

lemma insert_raisedSquare: "insert_poly emptyTree raisedSquare = Some (raisedTree, None)"
  by (simp add: insert_poly_def emptyTree_def raisedTree_def newLeaf_def
      createPartition_raisedSquare)

lemma distances_tallTriangle:
  "map (\<lambda>pt. pointToPlaneDistance pt (horizontalPlane 2)) (points tallTriangle) =
     [Fin (10 ^ 17), Fin (- 2), Fin 0]"
  by (simp add: pointToPlaneDistance_def tallTriangle_def mkPoint_def horizontalPlane_def
      number_arith Let_def)

lemma classify_tallTriangle: "classifyPolygon tallTriangle (horizontalPlane 2) = SPANNING"
  by (simp add: classify_defs tallTriangle_def mkPoint_def horizontalPlane_def
      number_arith Let_def)

lemma splitLists_tallTriangle:
  "splitLists tallTriangle (horizontalPlane 2) =
     ([mkPoint 0 (10 ^ 17), mkPoint 0 0, mkPoint 1 2], [mkPoint 0 0, mkPoint 0 0, mkPoint 1 2])"
  by (simp add: splitLists_def splitStep_def edgeCrosses_def pointToPlaneDistance_def
      tallTriangle_def mkPoint_def horizontalPlane_def number_arith Let_def upt_rec)

lemma split_tallTriangle:
  "fst (splitPolygon tallTriangle (horizontalPlane 2)) = Some tallTriangle"
  by (simp add: splitPolygon_fst splitLists_tallTriangle) (simp add: tallTriangle_def)

lemma insertHelper_tallTriangle_no_result:
  assumes "insertHelper node polygon = Some r"
  shows "\<not> (partition_of node = horizontalPlane 2 \<and> polygon = tallTriangle)"
  using assms
proof (induction rule: insertHelper_cases)
  case (Spanning node polygon r1 r)
  then show ?case by (auto simp add: split_tallTriangle)
qed (auto simp add: classify_tallTriangle)

lemma insertHelper_tallTriangle:
  "partition_of node = horizontalPlane 2 \<Longrightarrow> insertHelper node tallTriangle = None"
  using insertHelper_tallTriangle_no_result [of node tallTriangle]
  by (cases "insertHelper node tallTriangle") auto

text \<open>
  C7 fails on the code. The tree that holds the unit square on the line \<open>y = 2\<close> is built
  by one insert. The triangle \<open>(0, 10^17), (0, 0), (1, 2)\<close> has three vertices and a leading
  edge of non-zero length; against that line it is SPANNING (its vertices are at the
  distances \<open>10^17\<close>, \<open>- 2\<close> and \<open>0\<close>, and \<open>10^17 - 2\<close> rounds to \<open>10^17\<close>), and its front
  fragment is the triangle itself: the intersection point of the first edge is computed
  as \<open>(0, 0)\<close>, two units off the line. So \<open>_insertHelper\<close> calls itself on the same node
  with the same polygon, and the insert never returns.
\<close>

theorem insert_never_returns:
  "insert_poly emptyTree raisedSquare = Some (raisedTree, None)
   \<and> length (points tallTriangle) = 3
   \<and> points tallTriangle ! 0 \<noteq> points tallTriangle ! 1
   \<and> insert_poly raisedTree tallTriangle = None"
proof (intro conjI)
  show "insert_poly emptyTree raisedSquare = Some (raisedTree, None)"
    by (rule insert_raisedSquare)
  show "length (points tallTriangle) = 3"
    by (simp add: tallTriangle_def)
  show "points tallTriangle ! 0 \<noteq> points tallTriangle ! 1"
    by (simp add: tallTriangle_def mkPoint_def)
  show "insert_poly raisedTree tallTriangle = None"
    by (simp add: insert_poly_def raisedTree_def insertHelper_tallTriangle)
qed

end
